theory Spec2Isabelle
  imports Main "HOL-Library.Sublist" "HOL-Library.AList"
begin

section \<open>Go strings\<close>

text \<open>
  A Go string is a sequence of bytes, here a \<^typ>\<open>string\<close>. The functions of package
  \<open>strings\<close> that \<open>main.go\<close> calls are written out on bytes. \<open>strings.TrimSpace\<close> removes
  the leading and trailing runes for which \<open>unicode.IsSpace\<close> holds; \<open>spaceRunes\<close> lists
  their UTF-8 encodings. \<open>lowerChar\<close> and \<open>upperChar\<close> are the ASCII case mappings; \<open>strings.ToLower\<close> and
  \<open>strings.ToUpper\<close> follow the record of the environment, below.
\<close>

definition spaceRunes :: "string list" where
  "spaceRunes =
    [[CHR 0x09], [CHR 0x0A], [CHR 0x0B], [CHR 0x0C], [CHR 0x0D], [CHR 0x20],
     [CHR 0xC2, CHR 0x85], [CHR 0xC2, CHR 0xA0], [CHR 0xE1, CHR 0x9A, CHR 0x80],
     [CHR 0xE2, CHR 0x80, CHR 0x80], [CHR 0xE2, CHR 0x80, CHR 0x81],
     [CHR 0xE2, CHR 0x80, CHR 0x82], [CHR 0xE2, CHR 0x80, CHR 0x83],
     [CHR 0xE2, CHR 0x80, CHR 0x84], [CHR 0xE2, CHR 0x80, CHR 0x85],
     [CHR 0xE2, CHR 0x80, CHR 0x86], [CHR 0xE2, CHR 0x80, CHR 0x87],
     [CHR 0xE2, CHR 0x80, CHR 0x88], [CHR 0xE2, CHR 0x80, CHR 0x89],
     [CHR 0xE2, CHR 0x80, CHR 0x8A], [CHR 0xE2, CHR 0x80, CHR 0xA8],
     [CHR 0xE2, CHR 0x80, CHR 0xA9], [CHR 0xE2, CHR 0x80, CHR 0xAF],
     [CHR 0xE2, CHR 0x81, CHR 0x9F], [CHR 0xE3, CHR 0x80, CHR 0x80]]"

definition leadingWidth :: "string list \<Rightarrow> string \<Rightarrow> nat" where
  "leadingWidth rs s = (case List.find (\<lambda>r. prefix r s) rs of None \<Rightarrow> 0 | Some r \<Rightarrow> length r)"

fun trimLeading :: "string list \<Rightarrow> string \<Rightarrow> string" where
  "trimLeading rs [] = []"
| "trimLeading rs (c # cs) =
     (let w = leadingWidth rs (c # cs)
      in if w = 0 then c # cs else trimLeading rs (drop (w - 1) cs))"

definition TrimLeftSpace :: "string \<Rightarrow> string" where
  "TrimLeftSpace s = trimLeading spaceRunes s"

definition TrimRightSpace :: "string \<Rightarrow> string" where
  "TrimRightSpace s = rev (trimLeading (map rev spaceRunes) (rev s))"

definition TrimSpace :: "string \<Rightarrow> string" where
  "TrimSpace s = TrimRightSpace (TrimLeftSpace s)"

text \<open>\<open>strings.SplitN(s, sep, 2)\<close> for a separator of one byte.\<close>

definition SplitN2 :: "string \<Rightarrow> char \<Rightarrow> string list" where
  "SplitN2 s sep =
     (if sep \<in> set s
      then [takeWhile (\<lambda>c. c \<noteq> sep) s, tl (dropWhile (\<lambda>c. c \<noteq> sep) s)]
      else [s])"

text \<open>\<open>strings.ReplaceAll(s, old, new)\<close> for an \<open>old\<close> of one byte.\<close>

definition ReplaceAll :: "string \<Rightarrow> char \<Rightarrow> string \<Rightarrow> string" where
  "ReplaceAll s old new = concat (map (\<lambda>c. if c = old then new else [c]) s)"

definition Contains :: "string \<Rightarrow> char \<Rightarrow> bool" where
  "Contains s c = (c \<in> set s)"

definition HasPrefix :: "string \<Rightarrow> string \<Rightarrow> bool" where
  "HasPrefix s p = prefix p s"

definition HasSuffix :: "string \<Rightarrow> string \<Rightarrow> bool" where
  "HasSuffix s p = suffix p s"

definition TrimPrefix :: "string \<Rightarrow> string \<Rightarrow> string" where
  "TrimPrefix s p = (if prefix p s then drop (length p) s else s)"

definition TrimSuffix :: "string \<Rightarrow> string \<Rightarrow> string" where
  "TrimSuffix s p = (if suffix p s then take (length s - length p) s else s)"

definition lowerChar :: "char \<Rightarrow> char" where
  "lowerChar c =
     (case map_of (zip ''ABCDEFGHIJKLMNOPQRSTUVWXYZ'' ''abcdefghijklmnopqrstuvwxyz'') c of
        Some l \<Rightarrow> l | None \<Rightarrow> c)"

definition upperChar :: "char \<Rightarrow> char" where
  "upperChar c =
     (case map_of (zip ''abcdefghijklmnopqrstuvwxyz'' ''ABCDEFGHIJKLMNOPQRSTUVWXYZ'') c of
        Some u \<Rightarrow> u | None \<Rightarrow> c)"

section \<open>Package time: the part \<open>parseAppleDate\<close> uses\<close>

text \<open>
  A \<open>time.Time\<close> is kept as its calendar fields. \<open>time.Parse\<close> is written out for the
  two layouts of \<open>parseAppleDate\<close>: the layout is cut into literal text and standard
  chunks, the literal text is skipped in the value (a space of the layout stands for any
  run of spaces), a month name is looked up ignoring case, the day has one or two
  digits, the year exactly four; text left over is an error, and so is a day that the
  month does not have.
\<close>

datatype Location = UTC

record Time =
  Year :: int
  Month :: int
  Day :: int
  Hour :: int
  Minute :: int
  Second :: int
  Nanosecond :: int
  Loc :: Location

datatype error =
    ErrBad
  | ErrExtraText
  | ErrDayOutOfRange
  | ErrNoLayout
  | ErrIO string
  | ErrIllegalFilePath string
  | ErrOpenHTML string
  | ErrParseHTML string
  | ErrNoDate string
  | ErrDateUnparsed string
  | ErrEmptyEntry string
  | ErrConvert
  | ErrCreateZip
  | ErrJournalJSON

text \<open>
  \<open>time.Date\<close> normalises fields that are out of range. Its only caller passes the year,
  month and day of a time that \<open>time.Parse\<close> has validated, and constants, so the
  fields are stored as given.
\<close>

definition time_Date :: "int \<Rightarrow> int \<Rightarrow> int \<Rightarrow> int \<Rightarrow> int \<Rightarrow> int \<Rightarrow> int \<Rightarrow> Location \<Rightarrow> Time" where
  "time_Date y mo d h mi s ns l =
     \<lparr>Year = y, Month = mo, Day = d, Hour = h, Minute = mi, Second = s, Nanosecond = ns, Loc = l\<rparr>"

definition longMonthNames :: "string list" where
  "longMonthNames = [''January'', ''February'', ''March'', ''April'', ''May'', ''June'',
     ''July'', ''August'', ''September'', ''October'', ''November'', ''December'']"

definition shortMonthNames :: "string list" where
  "shortMonthNames = [''Jan'', ''Feb'', ''Mar'', ''Apr'', ''May'', ''Jun'',
     ''Jul'', ''Aug'', ''Sep'', ''Oct'', ''Nov'', ''Dec'']"

definition isDigit :: "string \<Rightarrow> nat \<Rightarrow> bool" where
  "isDigit s i = (i < length s \<and> 48 \<le> (of_char (s ! i) :: nat) \<and> (of_char (s ! i) :: nat) \<le> 57)"

definition digitVal :: "char \<Rightarrow> int" where
  "digitVal c = int (of_char c) - 48"

text \<open>\<open>match\<close> compares two strings of the same length ignoring the case of ASCII letters.\<close>

definition foldCase :: "char \<Rightarrow> nat" where
  "foldCase c = (if of_char c div 32 mod 2 = (1::nat) then of_char c else of_char c + 32)"

fun match :: "string \<Rightarrow> string \<Rightarrow> bool" where
  "match (c1 # s1) (c2 # s2) =
     ((c1 = c2 \<or> (foldCase c1 = foldCase c2 \<and> 97 \<le> foldCase c1 \<and> foldCase c1 \<le> 122))
      \<and> match s1 s2)"
| "match _ _ = True"

fun lookup :: "string list \<Rightarrow> string \<Rightarrow> (int \<times> string) option" where
  "lookup [] val = None"
| "lookup (v # tab) val =
     (if length v \<le> length val \<and> match (take (length v) val) v
      then Some (0, drop (length v) val)
      else map_option (\<lambda>(i, r). (i + 1, r)) (lookup tab val))"

definition cutspace :: "string \<Rightarrow> string" where
  "cutspace s = dropWhile (\<lambda>c. c = CHR '' '') s"

function skip :: "string \<Rightarrow> string \<Rightarrow> string option" where
  "skip val [] = Some val"
| "skip val (p # ps) =
     (if p = CHR '' ''
      then (if val \<noteq> [] \<and> hd val \<noteq> CHR '' '' then None
            else skip (cutspace val) (cutspace ps))
      else (case val of
              [] \<Rightarrow> None
            | v # vs \<Rightarrow> if v \<noteq> p then None else skip vs ps))"
  by pat_completeness auto
termination
  by (relation "measure (\<lambda>(val, p). length p)")
     (auto simp: cutspace_def le_imp_less_Suc length_dropWhile_le)

definition getnum :: "string \<Rightarrow> bool \<Rightarrow> (int \<times> string) option" where
  "getnum s fixed =
     (if \<not> isDigit s 0 then None
      else if \<not> isDigit s 1 then (if fixed then None else Some (digitVal (s ! 0), drop 1 s))
      else Some (digitVal (s ! 0) * 10 + digitVal (s ! 1), drop 2 s))"

definition atoi4 :: "string \<Rightarrow> int option" where
  "atoi4 p =
     (if isDigit p 0 \<and> isDigit p 1 \<and> isDigit p 2 \<and> isDigit p 3
      then Some (((digitVal (p ! 0) * 10 + digitVal (p ! 1)) * 10 + digitVal (p ! 2)) * 10
                 + digitVal (p ! 3))
      else None)"

definition isLeap :: "int \<Rightarrow> bool" where
  "isLeap y = (y mod 4 = 0 \<and> (y mod 100 \<noteq> 0 \<or> y mod 400 = 0))"

definition daysIn :: "int \<Rightarrow> int \<Rightarrow> int" where
  "daysIn m y =
     (if m = 2 \<and> isLeap y then 29
      else [31, 28, 31, 30, 31, 30, 31, 31, 30, 31, 30, 31] ! nat (m - 1))"

datatype chunk = Lit string | StdLongMonth | StdMonth | StdDay | StdLongYear

text \<open>What \<open>nextStdChunk\<close> yields, call after call, on the two layouts of the program.\<close>

definition stdChunks :: "string \<Rightarrow> chunk list option" where
  "stdChunks layout =
     (if layout = ''January 2, 2006''
      then Some [StdLongMonth, Lit '' '', StdDay, Lit '', '', StdLongYear]
      else if layout = ''Jan 2, 2006''
      then Some [StdMonth, Lit '' '', StdDay, Lit '', '', StdLongYear]
      else None)"

text \<open>The parse loop: the state is the rest of the value and the year, month and day.\<close>

fun parseChunks :: "chunk list \<Rightarrow> string \<Rightarrow> int \<times> int \<times> int \<Rightarrow> error + (int \<times> int \<times> int)" where
  "parseChunks [] val ymd = (if val \<noteq> [] then Inl ErrExtraText else Inr ymd)"
| "parseChunks (Lit p # cs) val ymd =
     (case skip val p of None \<Rightarrow> Inl ErrBad | Some val' \<Rightarrow> parseChunks cs val' ymd)"
| "parseChunks (StdLongMonth # cs) val (y, m, d) =
     (case lookup longMonthNames val of
        None \<Rightarrow> Inl ErrBad
      | Some (i, val') \<Rightarrow> parseChunks cs val' (y, i + 1, d))"
| "parseChunks (StdMonth # cs) val (y, m, d) =
     (case lookup shortMonthNames val of
        None \<Rightarrow> Inl ErrBad
      | Some (i, val') \<Rightarrow> parseChunks cs val' (y, i + 1, d))"
| "parseChunks (StdDay # cs) val (y, m, d) =
     (case getnum val False of
        None \<Rightarrow> Inl ErrBad
      | Some (n, val') \<Rightarrow> parseChunks cs val' (y, m, n))"
| "parseChunks (StdLongYear # cs) val (y, m, d) =
     (if length val < 4 \<or> \<not> isDigit val 0 then Inl ErrBad
      else (case atoi4 (take 4 val) of
              None \<Rightarrow> Inl ErrBad
            | Some n \<Rightarrow> parseChunks cs (drop 4 val) (n, m, d)))"

definition time_Parse :: "string \<Rightarrow> string \<Rightarrow> error + Time" where
  "time_Parse layout val =
     (case stdChunks layout of
        None \<Rightarrow> Inl ErrNoLayout
      | Some cs \<Rightarrow>
          (case parseChunks cs val (0, - 1, - 1) of
             Inl e \<Rightarrow> Inl e
           | Inr (y, m, d) \<Rightarrow>
               if d < 1 \<or> daysIn m y < d then Inl ErrDayOutOfRange
               else Inr (time_Date y m d 0 0 0 0 UTC)))"

section \<open>\<open>parseAppleDate\<close>\<close>

definition layouts :: "string list" where
  "layouts = [''January 2, 2006'', ''Jan 2, 2006'']"

fun tryLayouts :: "string list \<Rightarrow> string \<Rightarrow> error + Time" where
  "tryLayouts [] dateStr = Inl (ErrDateUnparsed dateStr)"
| "tryLayouts (layout # ls) dateStr =
     (case time_Parse layout dateStr of
        Inr t \<Rightarrow> Inr (time_Date (Year t) (Month t) (Day t) 12 0 0 0 UTC)
      | Inl e \<Rightarrow> tryLayouts ls dateStr)"

definition parseAppleDate :: "string \<Rightarrow> error + Time" where
  "parseAppleDate dateStr =
     (let parts = SplitN2 dateStr (CHR '','');
          dateStr' = (if length parts = 2 then TrimSpace (parts ! 1) else dateStr)
      in tryLayouts layouts dateStr')"

text \<open>How a date is written in a page header: the day without padding, the year with four digits.\<close>

definition digitChar :: "nat \<Rightarrow> char" where
  "digitChar n = char_of (48 + n mod 10)"

definition showDay :: "nat \<Rightarrow> string" where
  "showDay d = (if d < 10 then [digitChar d] else [digitChar (d div 10), digitChar d])"

definition showYear :: "nat \<Rightarrow> string" where
  "showYear y = [digitChar (y div 1000), digitChar (y div 100), digitChar (y div 10), digitChar y]"

section \<open>Package path/filepath, with \<open>/\<close> as the separator\<close>

text \<open>
  \<open>filepath.Clean\<close> drops empty and \<open>.\<close> elements, lets \<open>..\<close> remove the element before
  it (at the root it is dropped, at the start of a relative path it stays), and returns
  \<open>.\<close> for an empty result. \<open>filepath.Join\<close> joins from the first element that is not
  empty and cleans the result.
\<close>

fun splitOn :: "char \<Rightarrow> string \<Rightarrow> string list" where
  "splitOn sep [] = [[]]"
| "splitOn sep (c # cs) =
     (if c = sep then [] # splitOn sep cs
      else (case splitOn sep cs of [] \<Rightarrow> [[c]] | w # ws \<Rightarrow> (c # w) # ws))"

fun joinWith :: "string \<Rightarrow> string list \<Rightarrow> string" where
  "joinWith sep [] = []"
| "joinWith sep [e] = e"
| "joinWith sep (e # es) = e @ sep @ joinWith sep es"

fun cleanElems :: "bool \<Rightarrow> string list \<Rightarrow> string list \<Rightarrow> string list" where
  "cleanElems rooted [] out = out"
| "cleanElems rooted (e # es) out =
     (if e = [] \<or> e = ''.'' then cleanElems rooted es out
      else if e = ''..''
      then (if out \<noteq> [] \<and> last out \<noteq> ''..'' then cleanElems rooted es (butlast out)
            else if rooted then cleanElems rooted es out
            else cleanElems rooted es (out @ [''..'']))
      else cleanElems rooted es (out @ [e]))"

definition filepath_Clean :: "string \<Rightarrow> string" where
  "filepath_Clean path =
     (if path = [] then ''.''
      else (let rooted = (hd path = CHR ''/'');
                out = cleanElems rooted (splitOn (CHR ''/'') path) []
            in if rooted then CHR ''/'' # joinWith ''/'' out
               else if out = [] then ''.'' else joinWith ''/'' out))"

definition filepath_Join :: "string list \<Rightarrow> string" where
  "filepath_Join elem =
     (case dropWhile (\<lambda>e. e = []) elem of
        [] \<Rightarrow> []
      | e # es \<Rightarrow> filepath_Clean (joinWith ''/'' (e # es)))"

definition filepath_Dir :: "string \<Rightarrow> string" where
  "filepath_Dir path = filepath_Clean (rev (dropWhile (\<lambda>c. c \<noteq> CHR ''/'') (rev path)))"

definition filepath_Base :: "string \<Rightarrow> string" where
  "filepath_Base path =
     (if path = [] then ''.''
      else (let p = rev (dropWhile (\<lambda>c. c = CHR ''/'') (rev path));
                b = rev (takeWhile (\<lambda>c. c \<noteq> CHR ''/'') (rev p))
            in if b = [] then ''/'' else b))"

definition filepath_Ext :: "string \<Rightarrow> string" where
  "filepath_Ext path =
     (let el = rev (takeWhile (\<lambda>c. c \<noteq> CHR ''/'') (rev path))
      in if CHR ''.'' \<in> set el
         then CHR ''.'' # rev (takeWhile (\<lambda>c. c \<noteq> CHR ''.'') (rev el))
         else [])"

section \<open>The Day One data structures\<close>

record DayOnePhoto =
  MD5 :: string
  Type :: string
  Identifier :: string
  PhotoCreationDate :: string

record DayOneEntry =
  UUID :: string
  CreationDate :: string
  ModifiedDate :: string
  Text :: string
  Starred :: bool
  TimeZone :: string
  Photos :: "DayOnePhoto list"

record DayOneJournal =
  Metadata :: "(string \<times> string) list"
  Entries :: "DayOneEntry list"

section \<open>The parsed document and the selections of goquery\<close>

text \<open>
  A parsed HTML document is the list of the nodes under its document node; an element has
  a tag, attributes and children. A selected node is kept with its ancestors, nearest
  first, as a selector with a descendant combinator looks at them. \<open>Find\<close> returns the
  matching proper descendants in document order, \<open>Children\<close> the child elements,
  \<open>Text\<close> the text of all descendants.
\<close>

datatype node = Element string "(string \<times> string) list" "node list" | TextNode string

datatype simple = Simple string "string list"

datatype selector = One simple | Descendant simple simple

type_synonym selected = "node list \<times> node"

definition isHTMLSpace :: "char \<Rightarrow> bool" where
  "isHTMLSpace c = (c \<in> set [CHR 0x20, CHR 0x09, CHR 0x0D, CHR 0x0A, CHR 0x0C])"

fun fields :: "string \<Rightarrow> string \<Rightarrow> string list" where
  "fields cur [] = (if cur = [] then [] else [cur])"
| "fields cur (c # cs) =
     (if isHTMLSpace c then (if cur = [] then fields [] cs else cur # fields [] cs)
      else fields (cur @ [c]) cs)"

definition hasClass :: "(string \<times> string) list \<Rightarrow> string \<Rightarrow> bool" where
  "hasClass attrs cls = (\<exists>(k, v) \<in> set attrs. k = ''class'' \<and> cls \<in> set (fields [] v))"

fun matchSimple :: "simple \<Rightarrow> node \<Rightarrow> bool" where
  "matchSimple (Simple tg cls) (Element t attrs ch) = (t = tg \<and> (\<forall>c \<in> set cls. hasClass attrs c))"
| "matchSimple (Simple tg cls) (TextNode txt) = False"

fun Is :: "selector \<Rightarrow> selected \<Rightarrow> bool" where
  "Is (One s) (anc, n) = matchSimple s n"
| "Is (Descendant outer s) (anc, n) = (matchSimple s n \<and> (\<exists>a \<in> set anc. matchSimple outer a))"

fun subtree :: "node list \<Rightarrow> node \<Rightarrow> selected list" where
  "subtree anc (TextNode txt) = [(anc, TextNode txt)]"
| "subtree anc (Element t attrs ch) =
     (anc, Element t attrs ch) # concat (map (subtree (Element t attrs ch # anc)) ch)"

definition docFind :: "selector \<Rightarrow> node list \<Rightarrow> selected list" where
  "docFind sel doc = filter (Is sel) (concat (map (subtree []) doc))"

definition Find :: "selector \<Rightarrow> selected \<Rightarrow> selected list" where
  "Find sel s = filter (Is sel) (tl (subtree (fst s) (snd s)))"

fun isElement :: "node \<Rightarrow> bool" where
  "isElement (Element t attrs ch) = True"
| "isElement (TextNode txt) = False"

fun childNodes :: "node \<Rightarrow> node list" where
  "childNodes (Element t attrs ch) = ch"
| "childNodes (TextNode txt) = []"

definition Children :: "selected list \<Rightarrow> selected list" where
  "Children sels =
     concat (map (\<lambda>(anc, n). map (\<lambda>c. (n # anc, c)) (filter isElement (childNodes n))) sels)"

definition Parent :: "selected \<Rightarrow> selected list" where
  "Parent s = (case fst s of [] \<Rightarrow> [] | p # anc \<Rightarrow> [(anc, p)])"

fun nodeText :: "node \<Rightarrow> string" where
  "nodeText (TextNode txt) = txt"
| "nodeText (Element t attrs ch) = concat (map nodeText ch)"

definition firstText :: "selected list \<Rightarrow> string" where
  "firstText sels = (case sels of [] \<Rightarrow> [] | s # rest \<Rightarrow> nodeText (snd s))"

fun Attr :: "string \<Rightarrow> node \<Rightarrow> string option" where
  "Attr key (Element t attrs ch) = map_of attrs key"
| "Attr key (TextNode txt) = None"

text \<open>The selectors of \<open>processEntryHTML\<close>, parsed.\<close>

definition sel_pageHeader :: selector where
  "sel_pageHeader = One (Simple ''div'' [''pageHeader''])"

definition sel_title_span :: selector where
  "sel_title_span = Descendant (Simple ''div'' [''title'']) (Simple ''span'' [''s2''])"

definition sel_pageContainer :: selector where
  "sel_pageContainer = One (Simple ''div'' [''pageContainer''])"

definition sel_title :: selector where
  "sel_title = One (Simple ''div'' [''title''])"

definition sel_assetGrid :: selector where
  "sel_assetGrid = One (Simple ''div'' [''assetGrid''])"

definition sel_photo_img :: selector where
  "sel_photo_img =
     Descendant (Simple ''div'' [''gridItem'', ''assetType_photo'']) (Simple ''img'' [''asset_image''])"

definition sel_p :: selector where
  "sel_p = One (Simple ''p'' [])"

definition sel_bodyText :: selector where
  "sel_bodyText = One (Simple ''div'' [''bodyText''])"

section \<open>The world outside the program\<close>

text \<open>
  What the program reads from its surroundings is a record of functions: the file
  system, the HTML parser and renderer, the Markdown converter, the UUID generator
  (the 16 bytes of its \<open>n\<close>-th draw), MD5, the archive reader and writer, the JSON
  encoder. Opening a file and reading it to the end is one function, as the program
  returns the error of either in the same way.
\<close>

datatype statResult = StatOK | StatNotExist | StatError

record zipMember =
  zName :: string
  zIsDir :: bool

record walkItem =
  wPath :: string
  wName :: string
  wIsDir :: bool
  wErr :: "error option"

record World =
  readFile :: "string \<Rightarrow> error + string"
  parseHTML :: "string \<Rightarrow> error + node list"
  outerHtml :: "node \<Rightarrow> error + string"
  convertString :: "string \<Rightarrow> error + string"
  md5hex :: "string \<Rightarrow> string"
  uuid_New :: "nat \<Rightarrow> string"
  osStat :: "string \<Rightarrow> statResult"
  mkdirTemp :: "error + string"
  zipOpenReader :: "string \<Rightarrow> error + zipMember list"
  mkdirAll :: "string \<Rightarrow> error option"
  osOpenFile :: "string \<Rightarrow> error option"
  zipMemberOpen :: "string \<Rightarrow> error option"
  ioCopy :: "string \<Rightarrow> error option"
  readDir :: "string \<Rightarrow> error + (string \<times> bool) list"
  walkDir :: "string \<Rightarrow> walkItem list"
  osCreate :: "string \<Rightarrow> error option"
  zipCreate :: "string \<Rightarrow> error option"
  jsonMarshalIndent :: "DayOneJournal \<Rightarrow> error + string"
  zipWrite :: "string \<Rightarrow> error option"
  unicodeToLower :: "string \<Rightarrow> string"
  unicodeToUpper :: "string \<Rightarrow> string"

text \<open>
  \<open>strings.ToLower\<close> and \<open>strings.ToUpper\<close>. A string of ASCII bytes only has its letters
  mapped byte by byte, as on the fast path of the Go functions. Any other string goes
  through \<open>strings.Map(unicode.ToLower, s)\<close> (or \<open>unicode.ToUpper\<close>), which decodes UTF-8
  and reads the case tables of package \<open>unicode\<close>: that result is the field
  \<open>unicodeToLower\<close> (or \<open>unicodeToUpper\<close>) of the environment. With Go's tables,
  \<open>unicodeToLower\<close> sends the bytes of \<open>.G\<close>, U+0130, \<open>F\<close> to \<open>.gif\<close>.
\<close>

definition isASCII :: "string \<Rightarrow> bool" where
  "isASCII s = list_all (\<lambda>c. (of_char c :: nat) < 0x80) s"

definition ToLower :: "World \<Rightarrow> string \<Rightarrow> string" where
  "ToLower w s = (if isASCII s then map lowerChar s else unicodeToLower w s)"

definition ToUpper :: "World \<Rightarrow> string \<Rightarrow> string" where
  "ToUpper w s = (if isASCII s then map upperChar s else unicodeToUpper w s)"

datatype log =
    LogNoDate string
  | LogDateUnparsed string string
  | LogConvertError string
  | LogNonImage string string
  | LogImageNotFound string string
  | LogMD5Failed string
  | LogOuterHtmlError string
  | LogEmptyEntry string
  | LogZipCreateMedia string
  | LogZipOpenMedia string
  | LogZipCopyMedia string
  | LogCopied string string
  | LogWalkError string
  | LogEntrySkipped string error
  | LogSkipEmpty string
  | LogResourcesMissing string
  | LogNoEntries

section \<open>Helper functions of \<open>main.go\<close>\<close>

text \<open>\<open>UUID.String\<close>: the bytes in lower-case hexadecimal, in groups of 4, 2, 2, 2 and 6 bytes.\<close>

definition hexByte :: "char \<Rightarrow> string" where
  "hexByte b = [''0123456789abcdef'' ! (of_char b div 16), ''0123456789abcdef'' ! (of_char b mod 16)]"

definition uuid_String :: "string \<Rightarrow> string" where
  "uuid_String u =
     concat (map hexByte (take 4 u)) @ ''-'' @ concat (map hexByte (take 2 (drop 4 u))) @ ''-''
     @ concat (map hexByte (take 2 (drop 6 u))) @ ''-'' @ concat (map hexByte (take 2 (drop 8 u)))
     @ ''-'' @ concat (map hexByte (take 6 (drop 10 u)))"

definition newDayOneUUID :: "World \<Rightarrow> nat \<Rightarrow> string" where
  "newDayOneUUID w n = ReplaceAll (ToUpper w (uuid_String (uuid_New w n))) (CHR ''-'') []"

definition calculateMD5 :: "World \<Rightarrow> string \<Rightarrow> error + string" where
  "calculateMD5 w filePath =
     (case readFile w filePath of Inl e \<Rightarrow> Inl e | Inr bytes \<Rightarrow> Inr (md5hex w bytes))"

text \<open>\<open>Time.Format(time.RFC3339)\<close> of a time in UTC with a year of at most four digits.\<close>

definition pad2 :: "int \<Rightarrow> string" where
  "pad2 n = [digitChar (nat n div 10), digitChar (nat n)]"

definition formatRFC3339 :: "Time \<Rightarrow> string" where
  "formatRFC3339 t =
     showYear (nat (Year t)) @ ''-'' @ pad2 (Month t) @ ''-'' @ pad2 (Day t) @ ''T''
     @ pad2 (Hour t) @ '':'' @ pad2 (Minute t) @ '':'' @ pad2 (Second t) @ ''Z''"

fun unzipFiles :: "World \<Rightarrow> string \<Rightarrow> zipMember list \<Rightarrow> error option" where
  "unzipFiles w dest [] = None"
| "unzipFiles w dest (f # fs) =
     (let fpath = filepath_Join [dest, zName f]
      in if \<not> HasPrefix fpath (filepath_Clean dest @ ''/'') then Some (ErrIllegalFilePath fpath)
         else if zIsDir f then unzipFiles w dest fs
         else (case mkdirAll w (filepath_Dir fpath) of
                 Some e \<Rightarrow> Some e
               | None \<Rightarrow>
                   (case osOpenFile w fpath of
                      Some e \<Rightarrow> Some e
                    | None \<Rightarrow>
                        (case zipMemberOpen w (zName f) of
                           Some e \<Rightarrow> Some e
                         | None \<Rightarrow>
                             (case ioCopy w fpath of
                                Some e \<Rightarrow> Some e
                              | None \<Rightarrow> unzipFiles w dest fs)))))"

definition unzip :: "World \<Rightarrow> string \<Rightarrow> string \<Rightarrow> error option" where
  "unzip w src dest =
     (case zipOpenReader w src of
        Inl e \<Rightarrow> Some e
      | Inr files \<Rightarrow>
          (case mkdirAll w dest of
             Some e \<Rightarrow> Some e
           | None \<Rightarrow> unzipFiles w dest files))"

section \<open>\<open>processEntryHTML\<close>\<close>

text \<open>
  The variables that the closures of \<open>processEntryHTML\<close> update, the number of UUIDs drawn
  so far, and the warnings logged.
\<close>

record LoopState =
  entryPhotos :: "DayOnePhoto list"
  mediaToCopy :: "(string \<times> string) list"
  bodyMarkdownBuilder :: string
  currentPContent :: string
  uuidCalls :: nat
  logs :: "log list"

definition blankLine :: string where
  "blankLine = [CHR 0x0A, CHR 0x0A]"

definition placeholder :: "string \<Rightarrow> string" where
  "placeholder photoUUID = ''![](dayone-moment://'' @ photoUUID @ '')''"

definition convertAndAppendP :: "World \<Rightarrow> string \<Rightarrow> LoopState \<Rightarrow> LoopState" where
  "convertAndAppendP w htmlFilePath st =
     (if currentPContent st \<noteq> []
      then (case convertString w (currentPContent st) of
              Inl e \<Rightarrow>
                st\<lparr>currentPContent := [], logs := logs st @ [LogConvertError htmlFilePath]\<rparr>
            | Inr markdownFrag \<Rightarrow>
                st\<lparr>bodyMarkdownBuilder :=
                     bodyMarkdownBuilder st @ TrimSpace markdownFrag @ blankLine,
                   currentPContent := []\<rparr>)
      else st)"

definition imageExts :: "string list" where
  "imageExts = [''.png'', ''.jpg'', ''.jpeg'', ''.gif'']"

definition processImage :: "World \<Rightarrow> string \<Rightarrow> string \<Rightarrow> selected \<Rightarrow> LoopState \<Rightarrow> LoopState" where
  "processImage w htmlFilePath creationDate imgSel st =
     (case Attr ''src'' (snd imgSel) of
        None \<Rightarrow> st
      | Some imgSrc \<Rightarrow>
          if imgSrc = [] then st
          else
            (let absImgSrc = filepath_Clean (filepath_Join [filepath_Dir htmlFilePath, imgSrc]);
                 originalImageName = filepath_Base absImgSrc;
                 fileExt = ToLower w (filepath_Ext originalImageName)
             in if fileExt \<noteq> ''.png'' \<and> fileExt \<noteq> ''.jpg'' \<and> fileExt \<noteq> ''.jpeg''
                   \<and> fileExt \<noteq> ''.gif''
                then st\<lparr>logs := logs st @ [LogNonImage fileExt htmlFilePath]\<rparr>
                else if osStat w absImgSrc = StatNotExist
                then st\<lparr>logs := logs st @ [LogImageNotFound absImgSrc htmlFilePath]\<rparr>
                else
                  (let photoUUID = newDayOneUUID w (uuidCalls st);
                       dayOnePhotoFilename = photoUUID @ fileExt;
                       dayOnePhotoZipPath = filepath_Join [''photos'', dayOnePhotoFilename]
                   in case calculateMD5 w absImgSrc of
                        Inl e \<Rightarrow>
                          st\<lparr>uuidCalls := Suc (uuidCalls st),
                             logs := logs st @ [LogMD5Failed absImgSrc]\<rparr>
                      | Inr md5Hash \<Rightarrow>
                          st\<lparr>entryPhotos := entryPhotos st @
                               [\<lparr>MD5 = md5Hash, Type = TrimPrefix fileExt ''.'',
                                 Identifier = photoUUID, PhotoCreationDate = creationDate\<rparr>],
                             mediaToCopy :=
                               AList.update absImgSrc dayOnePhotoZipPath (mediaToCopy st),
                             bodyMarkdownBuilder :=
                               bodyMarkdownBuilder st @ placeholder photoUUID @ blankLine,
                             uuidCalls := Suc (uuidCalls st)\<rparr>)))"

definition writeAndConvert :: "World \<Rightarrow> string \<Rightarrow> string \<Rightarrow> LoopState \<Rightarrow> LoopState" where
  "writeAndConvert w htmlFilePath html st =
     convertAndAppendP w htmlFilePath (st\<lparr>currentPContent := currentPContent st @ html\<rparr>)"

definition outerHtmlOrEmpty :: "World \<Rightarrow> selected \<Rightarrow> string" where
  "outerHtmlOrEmpty w s = (case outerHtml w (snd s) of Inl e \<Rightarrow> [] | Inr html \<Rightarrow> html)"

definition processChild :: "World \<Rightarrow> string \<Rightarrow> string \<Rightarrow> selected \<Rightarrow> LoopState \<Rightarrow> LoopState" where
  "processChild w htmlFilePath creationDate s st =
     (if Is sel_pageHeader s then st
      else if Is sel_title s then st
      else if Is sel_assetGrid s
      then fold (processImage w htmlFilePath creationDate) (Find sel_photo_img s)
             (convertAndAppendP w htmlFilePath st)
      else (case outerHtml w (snd s) of
              Inl e \<Rightarrow> st\<lparr>logs := logs st @ [LogOuterHtmlError htmlFilePath]\<rparr>
            | Inr htmlContent \<Rightarrow>
                if Is sel_p s \<or> Is sel_bodyText s \<or> (\<exists>p \<in> set (Parent s). Is sel_bodyText p)
                then writeAndConvert w htmlFilePath htmlContent st
                else if Find sel_bodyText s \<noteq> []
                then fold (\<lambda>bodyTextSel. writeAndConvert w htmlFilePath (outerHtmlOrEmpty w bodyTextSel))
                       (Find sel_bodyText s) st
                else if Find sel_p s \<noteq> []
                then fold (\<lambda>pSel. writeAndConvert w htmlFilePath (outerHtmlOrEmpty w pSel))
                       (Find sel_p s) st
                else st))"

definition extractTitle :: "node list \<Rightarrow> string \<Rightarrow> string" where
  "extractTitle doc htmlFilePath =
     (let titleSelection = take 1 (docFind sel_title_span doc)
      in if length titleSelection > 0 then TrimSpace (firstText titleSelection)
         else (let fn0 = filepath_Base htmlFilePath;
                   fn = TrimSuffix fn0 (filepath_Ext fn0);
                   parts = SplitN2 fn (CHR ''_'')
               in if length parts > 1 \<and> Contains (parts ! 0) (CHR ''-'')
                  then ReplaceAll (parts ! 1) (CHR ''_'') '' ''
                  else []))"

definition walkBody :: "World \<Rightarrow> string \<Rightarrow> string \<Rightarrow> node list \<Rightarrow> LoopState \<Rightarrow> LoopState" where
  "walkBody w htmlFilePath creationDate doc st =
     convertAndAppendP w htmlFilePath
       (fold (processChild w htmlFilePath creationDate)
          (Children (docFind sel_pageContainer doc)) st)"

definition initLoopState :: "nat \<Rightarrow> LoopState" where
  "initLoopState n =
     \<lparr>entryPhotos = [], mediaToCopy = [], bodyMarkdownBuilder = [], currentPContent = [],
      uuidCalls = n, logs = []\<rparr>"

text \<open>
  The result of \<open>processEntryHTML\<close>: the entry and its media map or an error, with the
  number of UUIDs drawn and the warnings logged on the way.
\<close>

record procResult =
  outcome :: "error + (DayOneEntry \<times> (string \<times> string) list)"
  uuidsDrawn :: nat
  procLogs :: "log list"

definition processEntryHTML :: "World \<Rightarrow> string \<Rightarrow> string \<Rightarrow> string \<Rightarrow> nat \<Rightarrow> procResult" where
  "processEntryHTML w htmlFilePath baseResourcesPath defaultTimeZone n =
     (case readFile w htmlFilePath of
        Inl e \<Rightarrow> \<lparr>outcome = Inl (ErrOpenHTML htmlFilePath), uuidsDrawn = n, procLogs = []\<rparr>
      | Inr file \<Rightarrow>
     (case parseHTML w file of
        Inl e \<Rightarrow> \<lparr>outcome = Inl (ErrParseHTML htmlFilePath), uuidsDrawn = n, procLogs = []\<rparr>
      | Inr doc \<Rightarrow>
     (let entryUUID = newDayOneUUID w n;
          dateStr = TrimSpace (firstText (docFind sel_pageHeader doc))
      in if dateStr = []
         then \<lparr>outcome = Inl (ErrNoDate htmlFilePath), uuidsDrawn = Suc n,
                procLogs = [LogNoDate htmlFilePath]\<rparr>
         else
     (case parseAppleDate dateStr of
        Inl e \<Rightarrow> \<lparr>outcome = Inl (ErrDateUnparsed htmlFilePath), uuidsDrawn = Suc n,
                   procLogs = [LogDateUnparsed dateStr htmlFilePath]\<rparr>
      | Inr creationTime \<Rightarrow>
     (let isoDate = formatRFC3339 creationTime;
          entryTitle = extractTitle doc htmlFilePath;
          st = walkBody w htmlFilePath isoDate doc (initLoopState (Suc n));
          text0 = TrimSpace (bodyMarkdownBuilder st);
          text1 = (if entryTitle \<noteq> [] then ''# '' @ entryTitle @ blankLine @ text0 else text0)
      in if text1 = [] \<and> length (entryPhotos st) = 0
         then \<lparr>outcome = Inl (ErrEmptyEntry htmlFilePath), uuidsDrawn = uuidCalls st,
                procLogs = logs st @ [LogEmptyEntry htmlFilePath]\<rparr>
         else \<lparr>outcome = Inr (\<lparr>UUID = entryUUID, CreationDate = isoDate, ModifiedDate = isoDate,
                                Text = text1, Starred = False, TimeZone = defaultTimeZone,
                                Photos = entryPhotos st\<rparr>, mediaToCopy st),
                uuidsDrawn = uuidCalls st, procLogs = logs st\<rparr>)))))"

section \<open>\<open>createDayOneZip\<close>\<close>

fun copyMedia :: "World \<Rightarrow> (string \<times> string) list \<Rightarrow> log list" where
  "copyMedia w [] = []"
| "copyMedia w ((originalPath, dayOneZipPath) # rest) =
     (case zipCreate w dayOneZipPath of
        Some e \<Rightarrow> LogZipCreateMedia dayOneZipPath # copyMedia w rest
      | None \<Rightarrow>
          (case readFile w originalPath of
             Inl e \<Rightarrow> LogZipOpenMedia originalPath # copyMedia w rest
           | Inr bytes \<Rightarrow>
               (case ioCopy w dayOneZipPath of
                  Some e \<Rightarrow> LogZipCopyMedia originalPath # copyMedia w rest
                | None \<Rightarrow> LogCopied originalPath dayOneZipPath # copyMedia w rest)))"

definition createDayOneZip ::
  "World \<Rightarrow> string \<Rightarrow> DayOneJournal \<Rightarrow> (string \<times> string) list \<Rightarrow> string \<Rightarrow> error option \<times> log list" where
  "createDayOneZip w outputZipPath journal media tempExtractBasePath =
     (case osCreate w outputZipPath of
        Some e \<Rightarrow> (Some ErrCreateZip, [])
      | None \<Rightarrow>
          (case zipCreate w ''Journal.json'' of
             Some e \<Rightarrow> (Some ErrJournalJSON, [])
           | None \<Rightarrow>
               (case jsonMarshalIndent w journal of
                  Inl e \<Rightarrow> (Some ErrJournalJSON, [])
                | Inr jsonData \<Rightarrow>
                    (case zipWrite w jsonData of
                       Some e \<Rightarrow> (Some ErrJournalJSON, [])
                     | None \<Rightarrow> (None, copyMedia w media)))))"

section \<open>\<open>main\<close>\<close>

record RunState =
  dayOneJournal :: DayOneJournal
  allMediaToCopy :: "(string \<times> string) list"
  runUUIDs :: nat
  runLogs :: "log list"

definition mergeMedia :: "(string \<times> string) list \<Rightarrow> (string \<times> string) list \<Rightarrow> (string \<times> string) list" where
  "mergeMedia entryMedia allMedia = fold (\<lambda>(original, dayOnePath). AList.update original dayOnePath) entryMedia allMedia"

definition isHTMLName :: "World \<Rightarrow> string \<Rightarrow> bool" where
  "isHTMLName w name = (HasSuffix (ToLower w name) ''.html'' \<or> HasSuffix (ToLower w name) ''.htm'')"

text \<open>The callback of \<open>filepath.WalkDir\<close>: the error it returns, if any, and the new state.\<close>

definition walkFn :: "World \<Rightarrow> string \<Rightarrow> string \<Rightarrow> walkItem \<Rightarrow> RunState \<Rightarrow> error option \<times> RunState" where
  "walkFn w resourcesPath defaultTimeZone item st =
     (case wErr item of
        Some walkErr \<Rightarrow> (Some walkErr, st\<lparr>runLogs := runLogs st @ [LogWalkError (wPath item)]\<rparr>)
      | None \<Rightarrow>
          if wIsDir item then (None, st)
          else if isHTMLName w (wName item)
          then (let r = processEntryHTML w (wPath item) resourcesPath defaultTimeZone (runUUIDs st);
                    st1 = st\<lparr>runUUIDs := uuidsDrawn r, runLogs := runLogs st @ procLogs r\<rparr>
                in case outcome r of
                     Inl procErr \<Rightarrow>
                       (None, st1\<lparr>runLogs := runLogs st1 @ [LogEntrySkipped (wPath item) procErr]\<rparr>)
                   | Inr (entry, entryMedia) \<Rightarrow>
                       if Text entry = [] \<and> length (Photos entry) = 0
                       then (None, st1\<lparr>runLogs := runLogs st1 @ [LogSkipEmpty (wPath item)]\<rparr>)
                       else (None, st1\<lparr>dayOneJournal :=
                                          (dayOneJournal st1)\<lparr>Entries :=
                                             Entries (dayOneJournal st1) @ [entry]\<rparr>,
                                        allMediaToCopy := mergeMedia entryMedia (allMediaToCopy st1)\<rparr>))
          else (None, st))"

fun walkItems :: "World \<Rightarrow> string \<Rightarrow> string \<Rightarrow> walkItem list \<Rightarrow> RunState \<Rightarrow> error option \<times> RunState" where
  "walkItems w resourcesPath defaultTimeZone [] st = (None, st)"
| "walkItems w resourcesPath defaultTimeZone (item # items) st =
     (case walkFn w resourcesPath defaultTimeZone item st of
        (Some err, st') \<Rightarrow> (Some err, st')
      | (None, st') \<Rightarrow> walkItems w resourcesPath defaultTimeZone items st')"

text \<open>Where the \<open>Entries\<close> and \<open>Resources\<close> folders are looked for after extraction.\<close>

definition detectPaths :: "World \<Rightarrow> string \<Rightarrow> string \<times> string" where
  "detectPaths w tempExtractDir =
     (let entriesPath = filepath_Join [tempExtractDir, ''Entries''];
          resourcesPath = filepath_Join [tempExtractDir, ''Resources'']
      in case readDir w tempExtractDir of
           Inr [(potentialRootFolderName, True)] \<Rightarrow>
             (let testEntriesPath = filepath_Join [tempExtractDir, potentialRootFolderName, ''Entries'']
              in if osStat w testEntriesPath = StatOK
                 then (testEntriesPath,
                       filepath_Join [tempExtractDir, potentialRootFolderName, ''Resources''])
                 else (entriesPath, resourcesPath))
         | _ \<Rightarrow> (entriesPath, resourcesPath))"

datatype fatal =
    FatalUsage
  | FatalTempDir
  | FatalUnzip
  | FatalEntriesNotFound
  | FatalWalk
  | FatalCreateZip

datatype runResult = Aborted fatal | Completed DayOneJournal "(string \<times> string) list" "log list"

definition initRunState :: "World \<Rightarrow> string \<Rightarrow> RunState" where
  "initRunState w resourcesPath =
     \<lparr>dayOneJournal = \<lparr>Metadata = [(''version'', ''1.0'')], Entries = []\<rparr>,
      allMediaToCopy = [], runUUIDs = 0,
      runLogs = (if osStat w resourcesPath = StatNotExist
                 then [LogResourcesMissing resourcesPath] else [])\<rparr>"

definition main :: "World \<Rightarrow> string \<Rightarrow> string \<Rightarrow> string \<Rightarrow> runResult" where
  "main w inputZip outputZip defaultTimeZone =
     (if inputZip = [] \<or> outputZip = [] then Aborted FatalUsage
      else (case mkdirTemp w of
        Inl e \<Rightarrow> Aborted FatalTempDir
      | Inr tempExtractDir \<Rightarrow>
     (case unzip w inputZip tempExtractDir of
        Some e \<Rightarrow> Aborted FatalUnzip
      | None \<Rightarrow>
     (let (entriesPath, resourcesPath) = detectPaths w tempExtractDir
      in if osStat w entriesPath = StatNotExist then Aborted FatalEntriesNotFound
         else
     (case walkItems w resourcesPath defaultTimeZone (walkDir w entriesPath)
             (initRunState w resourcesPath) of
           (Some err, st) \<Rightarrow> Aborted FatalWalk
         | (None, st) \<Rightarrow>
             (let lg = (if length (Entries (dayOneJournal st)) = 0 then [LogNoEntries] else [])
              in case createDayOneZip w outputZip (dayOneJournal st) (allMediaToCopy st) tempExtractDir of
                   (Some e, zl) \<Rightarrow> Aborted FatalCreateZip
                 | (None, zl) \<Rightarrow>
                     Completed (dayOneJournal st) (allMediaToCopy st) (runLogs st @ lg @ zl)))))))"

section \<open>Sample documents\<close>

text \<open>
  A small export, used to run the definitions: two entries that show the same image,
  one file with a date only, one whose name carries its only title, one with an
  unreadable date.
\<close>

definition headerDiv :: "string \<Rightarrow> node" where
  "headerDiv txt = Element ''div'' [(''class'', ''pageHeader'')] [TextNode txt]"

definition photoItem :: "string \<Rightarrow> node" where
  "photoItem src =
     Element ''div'' [(''class'', ''gridItem assetType_photo'')]
       [Element ''img'' [(''class'', ''asset_image''), (''src'', src)] []]"

definition page :: "node list \<Rightarrow> node list" where
  "page blocks =
     [Element ''html'' [] [Element ''body'' [] [Element ''div'' [(''class'', ''pageContainer'')] blocks]]]"

definition docWalk :: "node list" where
  "docWalk = page
     [headerDiv ''Wednesday, May 14, 2025'',
      Element ''div'' [(''class'', ''title'')]
        [Element ''span'' [(''class'', ''s2'')] [TextNode ''Morning Walk'']],
      Element ''p'' [(''class'', ''p2'')] [TextNode ''Felt great today.''],
      Element ''div'' [(''class'', ''assetGrid'')]
        [photoItem ''../Resources/A.PNG'', photoItem ''../Resources/B.mov'']]"

definition docSecond :: "node list" where
  "docSecond = page
     [headerDiv ''Thursday, May 15, 2025'',
      Element ''div'' [(''class'', ''assetGrid'')] [photoItem ''../Resources/A.PNG'']]"

definition docDateOnly :: "node list" where
  "docDateOnly = page [headerDiv ''Friday, May 16, 2025'']"

definition docGarbage :: "node list" where
  "docGarbage = page [headerDiv ''garbage text'', Element ''p'' [] [TextNode ''Hello'']]"

definition docTitleToken :: "node list" where
  "docTitleToken = page
     [headerDiv ''Friday, May 16, 2025'',
      Element ''div'' [(''class'', ''title'')]
        [Element ''span'' [(''class'', ''s2'')] [TextNode ''![](dayone-moment://AB)'']]]"

definition sampleItems :: "walkItem list" where
  "sampleItems =
     [\<lparr>wPath = ''/t/Entries'', wName = ''Entries'', wIsDir = True, wErr = None\<rparr>,
      \<lparr>wPath = ''/t/Entries/a.html'', wName = ''a.html'', wIsDir = False, wErr = None\<rparr>,
      \<lparr>wPath = ''/t/Entries/b.htm'', wName = ''b.htm'', wIsDir = False, wErr = None\<rparr>,
      \<lparr>wPath = ''/t/Entries/c.html'', wName = ''c.html'', wIsDir = False, wErr = None\<rparr>,
      \<lparr>wPath = ''/t/Entries/g.html'', wName = ''g.html'', wIsDir = False, wErr = None\<rparr>]"

text \<open>
  The environment of the sample run. Every path and name of the sample is ASCII, so the
  Unicode case mappings are never consulted there; they are the identity.
\<close>

definition sampleWorld :: World where
  "sampleWorld =
     \<lparr>readFile = (\<lambda>p. Inr p),
      parseHTML = (\<lambda>f. if f = ''/t/Entries/a.html'' then Inr docWalk
                        else if f = ''/t/Entries/b.htm'' then Inr docSecond
                        else if f = ''/t/Entries/g.html'' then Inr docGarbage
                        else Inr docDateOnly),
      outerHtml = (\<lambda>n. Inr (nodeText n)),
      convertString = (\<lambda>s. Inr s),
      md5hex = (\<lambda>b. ''d41d8cd9''),
      uuid_New = (\<lambda>n. replicate 16 (char_of n)),
      osStat = (\<lambda>p. StatOK),
      mkdirTemp = Inr ''/t'',
      zipOpenReader = (\<lambda>p. Inr [\<lparr>zName = ''Entries/a.html'', zIsDir = False\<rparr>]),
      mkdirAll = (\<lambda>p. None),
      osOpenFile = (\<lambda>p. None),
      zipMemberOpen = (\<lambda>p. None),
      ioCopy = (\<lambda>p. None),
      readDir = (\<lambda>p. Inr [(''Entries'', True), (''Resources'', True)]),
      walkDir = (\<lambda>p. sampleItems),
      osCreate = (\<lambda>p. None),
      zipCreate = (\<lambda>p. None),
      jsonMarshalIndent = (\<lambda>j. Inr ''{}''),
      zipWrite = (\<lambda>p. None),
      unicodeToLower = (\<lambda>s. s),
      unicodeToUpper = (\<lambda>s. s)\<rparr>"

text \<open>What the two entries with an image come out as.\<close>

definition entryA :: DayOneEntry where
  "entryA =
     \<lparr>UUID = ''00000000000000000000000000000000'', CreationDate = ''2025-05-14T12:00:00Z'',
      ModifiedDate = ''2025-05-14T12:00:00Z'',
      Text = ''# Morning Walk'' @ blankLine @ ''Felt great today.'' @ blankLine
             @ ''![](dayone-moment://01010101010101010101010101010101)'',
      Starred = False, TimeZone = ''UTC'',
      Photos = [\<lparr>MD5 = ''d41d8cd9'', Type = ''png'',
                 Identifier = ''01010101010101010101010101010101'',
                 PhotoCreationDate = ''2025-05-14T12:00:00Z''\<rparr>]\<rparr>"

definition entryB :: DayOneEntry where
  "entryB =
     \<lparr>UUID = ''02020202020202020202020202020202'', CreationDate = ''2025-05-15T12:00:00Z'',
      ModifiedDate = ''2025-05-15T12:00:00Z'',
      Text = ''![](dayone-moment://03030303030303030303030303030303)'',
      Starred = False, TimeZone = ''UTC'',
      Photos = [\<lparr>MD5 = ''d41d8cd9'', Type = ''png'',
                 Identifier = ''03030303030303030303030303030303'',
                 PhotoCreationDate = ''2025-05-15T12:00:00Z''\<rparr>]\<rparr>"

definition sampleLogs :: "log list" where
  "sampleLogs =
     [LogNonImage ''.mov'' ''/t/Entries/a.html'',
      LogEmptyEntry ''/t/Entries/c.html'',
      LogEntrySkipped ''/t/Entries/c.html'' (ErrEmptyEntry ''/t/Entries/c.html''),
      LogDateUnparsed ''garbage text'' ''/t/Entries/g.html'',
      LogEntrySkipped ''/t/Entries/g.html'' (ErrDateUnparsed ''/t/Entries/g.html''),
      LogCopied ''/t/Resources/A.PNG'' ''photos/03030303030303030303030303030303.png'']"

text \<open>The same export when the walk meets a folder it cannot read.\<close>

definition walkErrWorld :: World where
  "walkErrWorld =
     sampleWorld\<lparr>walkDir := (\<lambda>p. [\<lparr>wPath = ''/t/Entries/x'', wName = ''x'', wIsDir = True,
                                     wErr = Some (ErrIO ''permission denied'')\<rparr>])\<rparr>"


text \<open>A world whose documents all carry a placeholder-like text as their title.\<close>

definition titleTokenWorld :: World where
  "titleTokenWorld = sampleWorld\<lparr>parseHTML := (\<lambda>f. Inr docTitleToken)\<rparr>"

definition entryTitleToken :: DayOneEntry where
  "entryTitleToken =
     \<lparr>UUID = ''00000000000000000000000000000000'', CreationDate = ''2025-05-16T12:00:00Z'',
      ModifiedDate = ''2025-05-16T12:00:00Z'',
      Text = ''# ![](dayone-moment://AB)'' @ blankLine, Starred = False, TimeZone = ''UTC'',
      Photos = []\<rparr>"

text \<open>
  The sample export in a world where things fail: one document cannot be opened, one
  cannot be parsed, one has no date header, the converter rejects every fragment, one
  image is missing, one cannot be read, and two media files cannot be written.
\<close>

definition docNoDate :: "node list" where
  "docNoDate = page [Element ''p'' [] [TextNode ''Hello'']]"

definition failWorld :: World where
  "failWorld =
     sampleWorld
       \<lparr>readFile := (\<lambda>p. if p = ''/t/Entries/u.html'' \<or> p = ''/t/Resources/U.png''
                          then Inl (ErrIO ''unreadable'') else Inr p),
        parseHTML := (\<lambda>f. if f = ''/t/Entries/x.html'' then Inl (ErrIO ''bad html'')
                           else if f = ''/t/Entries/n.html'' then Inr docNoDate
                           else if f = ''/t/Entries/g.html'' then Inr docGarbage
                           else Inr docDateOnly),
        convertString := (\<lambda>s. Inl ErrConvert),
        osStat := (\<lambda>p. if p = ''/t/Resources/M.png'' then StatNotExist else StatOK),
        zipCreate := (\<lambda>p. if p = ''photos/1.png'' then Some (ErrIO ''zip'') else None),
        ioCopy := (\<lambda>p. if p = ''photos/3.png'' then Some (ErrIO ''copy'') else None)\<rparr>"

definition sampleState5 :: RunState where
  "sampleState5 =
     \<lparr>dayOneJournal = \<lparr>Metadata = [(''version'', ''1.0'')], Entries = [entryA]\<rparr>,
      allMediaToCopy = [(''/t/Resources/A.PNG'', ''photos/01010101010101010101010101010101.png'')],
      runUUIDs = 5, runLogs = []\<rparr>"

section \<open>Notions used to state the properties\<close>

text \<open>The nodes of a document: every node under the document node.\<close>

fun descs :: "node \<Rightarrow> node set" where
  "descs (TextNode txt) = {TextNode txt}"
| "descs (Element t attrs ch) = insert (Element t attrs ch) (\<Union>c \<in> set ch. descs c)"

definition docDescs :: "node list \<Rightarrow> node set" where
  "docDescs doc = (\<Union>n \<in> set doc. descs n)"

text \<open>
  What holds of the photos and the media map while an entry is processed, \<open>lo\<close> being the
  number of UUIDs drawn before its first photo: the photo identifiers are the tokens of
  increasing draws, every destination is \<open>photos/<identifier><extension>\<close> for a photo of
  the entry, and neither a source path nor a destination occurs twice in the map.
\<close>

definition mintedInv :: "World \<Rightarrow> nat \<Rightarrow> LoopState \<Rightarrow> bool" where
  "mintedInv w lo st \<longleftrightarrow>
     lo \<le> uuidCalls st
     \<and> (\<exists>is. map Identifier (entryPhotos st) = map (newDayOneUUID w) is \<and> sorted_wrt (<) is
              \<and> (\<forall>i \<in> set is. lo \<le> i \<and> i < uuidCalls st))
     \<and> (\<forall>v \<in> snd ` set (mediaToCopy st).
           \<exists>i. \<exists>ext \<in> set imageExts. lo \<le> i \<and> i < uuidCalls st
               \<and> v = ''photos/'' @ newDayOneUUID w i @ ext
               \<and> newDayOneUUID w i \<in> Identifier ` set (entryPhotos st))
     \<and> distinct (map snd (mediaToCopy st))
     \<and> distinct (map fst (mediaToCopy st))"

text \<open>
  The same for the merged media map of a run: every destination is
  \<open>photos/<identifier><extension>\<close> for a draw made so far, and no destination occurs twice.
\<close>

definition runInv :: "World \<Rightarrow> RunState \<Rightarrow> bool" where
  "runInv w st \<longleftrightarrow>
     (\<forall>v \<in> snd ` set (allMediaToCopy st).
           \<exists>i. \<exists>ext \<in> set imageExts. i < runUUIDs st \<and> v = ''photos/'' @ newDayOneUUID w i @ ext)
     \<and> distinct (map snd (allMediaToCopy st))"

text \<open>
  The number of UUIDs drawn by the walk of a run that extracts to \<open>tmp\<close>: the counter of
  the state in which \<open>main\<close> leaves the walk.
\<close>

definition runDraws :: "World \<Rightarrow> string \<Rightarrow> string \<Rightarrow> nat" where
  "runDraws w defaultTimeZone tmp =
     (let (entriesPath, resourcesPath) = detectPaths w tmp
      in runUUIDs (snd (walkItems w resourcesPath defaultTimeZone (walkDir w entriesPath)
                          (initRunState w resourcesPath))))"

text \<open>
  What the body buffer of an entry is made of: the fragments the converter returned, each
  trimmed, and the placeholders of the photos, each followed by a blank line.
\<close>

datatype fragment = Converted string | PhotoRef string

fun render :: "fragment \<Rightarrow> string" where
  "render (Converted md) = TrimSpace md @ blankLine"
| "render (PhotoRef u) = placeholder u @ blankLine"

fun photoRefs :: "fragment list \<Rightarrow> string list" where
  "photoRefs [] = []"
| "photoRefs (Converted md # fs) = photoRefs fs"
| "photoRefs (PhotoRef u # fs) = u # photoRefs fs"

text \<open>
  What holds of the body buffer while the body of document \<open>doc\<close> is walked: no paragraph
  content is pending, the buffer is a sequence of fragments whose placeholders are, in
  order, those of the photos recorded so far, every converted fragment is the Markdown of a
  node of the document, and every placeholder carries a minted token.
\<close>

definition bodyInv :: "World \<Rightarrow> node list \<Rightarrow> LoopState \<Rightarrow> bool" where
  "bodyInv w doc st \<longleftrightarrow>
     currentPContent st = []
     \<and> (\<exists>fs. bodyMarkdownBuilder st = concat (map render fs)
            \<and> photoRefs fs = map Identifier (entryPhotos st)
            \<and> (\<forall>md. Converted md \<in> set fs \<longrightarrow>
                  (\<exists>nd \<in> docDescs doc. \<exists>html. outerHtml w nd = Inr html
                      \<and> convertString w html = Inr md))
            \<and> (\<forall>u \<in> set (photoRefs fs). \<exists>k. u = newDayOneUUID w k))"



section \<open>Facts about the string functions\<close>

lemma SplitN2_first:
  assumes "sep \<notin> set a"
  shows "SplitN2 (a @ sep # r) sep = [a, r]"
proof -
  from assms have "takeWhile (\<lambda>c. c \<noteq> sep) (a @ sep # r) = a"
    by (induction a) auto
  moreover from assms have "dropWhile (\<lambda>c. c \<noteq> sep) (a @ sep # r) = sep # r"
    by (induction a) auto
  ultimately show ?thesis by (simp add: SplitN2_def)
qed

lemma leadingWidth_none:
  assumes "\<And>r. r \<in> set rs \<Longrightarrow> \<not> prefix r s"
  shows "leadingWidth rs s = 0"
proof -
  have "List.find (\<lambda>r. prefix r s) rs = None"
    using assms by (simp add: find_None_iff)
  then show ?thesis by (simp add: leadingWidth_def)
qed

lemma graphic_not_space_lead:
  assumes "33 \<le> (of_char c :: nat)" "(of_char c :: nat) \<le> 126"
  shows "leadingWidth spaceRunes (c # cs) = 0" "leadingWidth (map rev spaceRunes) (c # cs) = 0"
proof -
  have ne: "c \<noteq> char_of k" if "k < 33 \<or> (126 < k \<and> k < 256)" for k :: nat
  proof
    assume "c = char_of k"
    then have "of_char c = k mod 256" by simp
    with that assms show False by auto
  qed
  show "leadingWidth spaceRunes (c # cs) = 0"
    by (rule leadingWidth_none) (use assms in \<open>auto simp: spaceRunes_def\<close>)
  show "leadingWidth (map rev spaceRunes) (c # cs) = 0"
    by (rule leadingWidth_none) (use assms in \<open>auto simp: spaceRunes_def\<close>)
qed

lemma TrimSpace_graphic:
  assumes "33 \<le> (of_char c :: nat)" "(of_char c :: nat) \<le> 126"
    and "33 \<le> (of_char e :: nat)" "(of_char e :: nat) \<le> 126"
  shows "TrimSpace (CHR '' '' # c # mid @ [e]) = c # mid @ [e]"
proof -
  have "leadingWidth spaceRunes (CHR '' '' # c # mid @ [e]) = 1"
    by (simp add: leadingWidth_def spaceRunes_def)
  then have "TrimLeftSpace (CHR '' '' # c # mid @ [e]) = c # mid @ [e]"
    by (simp add: TrimLeftSpace_def graphic_not_space_lead(1) [OF assms(1,2)])
  moreover have "TrimRightSpace (c # mid @ [e]) = c # mid @ [e]"
    by (simp add: TrimRightSpace_def graphic_not_space_lead(2) [OF assms(3,4)])
  ultimately show ?thesis by (simp add: TrimSpace_def)
qed

section \<open>Parsing a page header's date\<close>

lemma digit_of_char: "of_char (digitChar n) = 48 + n mod 10"
  by (simp add: digitChar_def)

lemma digitVal_digitChar: "digitVal (digitChar n) = int (n mod 10)"
  by (simp add: digitVal_def digitChar_def)

lemma digitChar_neq_space: "digitChar n \<noteq> CHR '' ''"
proof
  assume "digitChar n = CHR '' ''"
  then have "(of_char (digitChar n) :: nat) = of_char (CHR '' '')" by simp
  then show False by (simp add: digit_of_char)
qed

lemma digitChar_neq_comma: "digitChar n \<noteq> CHR '',''"
proof
  assume "digitChar n = CHR '',''"
  then have "(of_char (digitChar n) :: nat) = of_char (CHR '','')" by simp
  then show False by (simp add: digit_of_char)
qed

lemma month_index_cases:
  "m < 12 \<Longrightarrow> m \<in> {0, 1, 2, 3, 4, 5, 6, 7, 8, 9, 10, 11::nat}"
  by (simp, arith)

lemma lookup_long: 
  assumes "m < 12"
  shows "lookup longMonthNames ((longMonthNames ! m) @ CHR '' '' # rest) = Some (int m, CHR '' '' # rest)"
  using month_index_cases [OF assms]
  by (elim insertE emptyE) (simp_all add: longMonthNames_def foldCase_def)

lemma lookup_short: 
  assumes "m < 12"
  shows "lookup shortMonthNames ((shortMonthNames ! m) @ CHR '' '' # rest) = Some (int m, CHR '' '' # rest)"
  using month_index_cases [OF assms]
  by (elim insertE emptyE) (simp_all add: shortMonthNames_def foldCase_def)

lemma lookup_long_short: 
  assumes "m < 12"
  shows "lookup longMonthNames ((shortMonthNames ! m) @ CHR '' '' # rest) = (if m = 4 then Some (int m, CHR '' '' # rest) else None)"
  using month_index_cases [OF assms]
  by (elim insertE emptyE) (simp_all add: shortMonthNames_def longMonthNames_def foldCase_def)

lemma skip_space_digit: "skip (CHR '' '' # digitChar n # r) '' '' = Some (digitChar n # r)"
  by (simp add: cutspace_def digitChar_neq_space)

lemma skip_comma_digit: "skip (CHR '','' # CHR '' '' # digitChar n # r) '', '' = Some (digitChar n # r)"
  by (simp add: cutspace_def digitChar_neq_space)

lemma digit_range:
  "48 \<le> (of_char (digitChar n) :: nat)" "(of_char (digitChar n) :: nat) \<le> 57"
proof -
  have "n mod 10 < 10" by simp
  then show "48 \<le> (of_char (digitChar n) :: nat)" "(of_char (digitChar n) :: nat) \<le> 57"
    unfolding digit_of_char by linarith+
qed

lemma isDigit_0: "isDigit (digitChar n # r) 0"
  by (simp add: isDigit_def digit_range)

lemma isDigit_1: "isDigit (c # digitChar n # r) (Suc 0)"
  by (simp add: isDigit_def digit_range)

lemma not_isDigit_comma: "\<not> isDigit (c # CHR '','' # r) (Suc 0)"
  by (simp add: isDigit_def)

lemma year_digits:
  assumes "y \<le> 9999"
  shows "((int (y div 1000 mod 10) * 10 + int (y div 100 mod 10)) * 10 + int (y div 10 mod 10)) * 10 + int (y mod 10) = int y"
proof -
  define a where "a = y div 10"
  define b where "b = a div 10"
  define c where "c = b div 10"
  have 1: "y div 100 = b" "y div 1000 = c" 
    by (simp_all add: a_def b_def c_def div_mult2_eq [symmetric])
  have "c < 10" using assms unfolding 1(2) [symmetric] by simp
  then have 2: "c mod 10 = c" by simp
  have 3: "y = a * 10 + y mod 10" "a = b * 10 + a mod 10" "b = c * 10 + b mod 10"
    by (simp_all add: a_def b_def c_def)
  have "((c mod 10 * 10 + b mod 10) * 10 + a mod 10) * 10 + y mod 10 = y"
    unfolding 2 using 3 by presburger
  then have "int (((c mod 10 * 10 + b mod 10) * 10 + a mod 10) * 10 + y mod 10) = int y"
    by simp
  then show ?thesis unfolding 1 a_def [symmetric] by simp
qed
lemma day_digits:
  assumes "d < 100"
  shows "int (d div 10 mod 10) * 10 + int (d mod 10) = int d"
proof -
  from assms have e: "d div 10 mod 10 = d div 10" by simp
  have "int (d div 10) * 10 + int (d mod 10) = int (d div 10 * 10 + d mod 10)"
    by (simp only: of_nat_add of_nat_mult of_nat_numeral)
  also have "\<dots> = int d" by simp
  finally show ?thesis unfolding e .
qed

lemma getnum_showDay:
  assumes "d < 100"
  shows "getnum (showDay d @ CHR '','' # r) False = Some (int d, CHR '','' # r)"
proof (cases "d < 10")
  case True
  then show ?thesis
    by (simp add: getnum_def showDay_def isDigit_0 not_isDigit_comma digitVal_digitChar)
next
  case False
  have "int (d div 10) * 10 + int (d mod 10) = int (d div 10 * 10 + d mod 10)"
    by (simp only: of_nat_add of_nat_mult of_nat_numeral)
  then have "int (d div 10) * 10 + int (d mod 10) = int d"
    by simp
  with False day_digits [OF assms] show ?thesis
    by (simp add: getnum_def showDay_def isDigit_0 isDigit_1 digitVal_digitChar)
qed

lemma atoi4_showYear:
  assumes "y \<le> 9999"
  shows "atoi4 (showYear y) = Some (int y)"
proof -
  have "atoi4 (showYear y) =
    Some (((int (y div 1000 mod 10) * 10 + int (y div 100 mod 10)) * 10
            + int (y div 10 mod 10)) * 10 + int (y mod 10))"
    by (simp add: atoi4_def showYear_def isDigit_def digit_range digitVal_digitChar)
  then show ?thesis
    by (simp only: year_digits [OF assms])
qed

lemma skip_space_showDay: "skip (CHR '' '' # showDay d @ r) '' '' = Some (showDay d @ r)"
  by (simp add: showDay_def cutspace_def digitChar_neq_space)

lemma skip_comma_showYear: "skip (CHR '','' # CHR '' '' # showYear y) '', '' = Some (showYear y)"
  by (simp add: showYear_def cutspace_def digitChar_neq_space)

lemma showYear_shape:
  "length (showYear y) = 4" "isDigit (showYear y) 0" "take 4 (showYear y) = showYear y"
  "drop 4 (showYear y) = []"
  by (simp_all add: showYear_def isDigit_def digit_range)

lemma daysIn_le_31:
  assumes "m < 12"
  shows "daysIn (int m + 1) y \<le> 31"
  using month_index_cases [OF assms]
  by (elim insertE emptyE) (simp_all add: daysIn_def)

lemma parseChunks_tail:
  assumes "d < 100" "y \<le> 9999"
  shows "parseChunks [Lit '' '', StdDay, Lit '', '', StdLongYear]
           (CHR '' '' # showDay d @ CHR '','' # CHR '' '' # showYear y) (y0, mo, d0)
         = Inr (int y, mo, int d)"
  using assms
  by (simp add: skip_space_showDay getnum_showDay skip_comma_showYear showYear_shape
      atoi4_showYear del: skip.simps)

lemma time_Parse_long:
  assumes "m < 12" "1 \<le> d" "int d \<le> daysIn (int m + 1) (int y)" "y \<le> 9999"
  shows "time_Parse ''January 2, 2006''
           (longMonthNames ! m @ CHR '' '' # showDay d @ CHR '','' # CHR '' '' # showYear y)
         = Inr (time_Date (int y) (int m + 1) (int d) 0 0 0 0 UTC)"
proof -
  from assms(3) daysIn_le_31 [OF assms(1), of "int y"] have "d < 100" by linarith
  with assms show ?thesis
    apply (simp add: time_Parse_def stdChunks_def del: parseChunks.simps)
    apply (subst parseChunks.simps(3))
    apply (simp add: lookup_long parseChunks_tail del: parseChunks.simps)
    done
qed

lemma time_Parse_short:
  assumes "m < 12" "1 \<le> d" "int d \<le> daysIn (int m + 1) (int y)" "y \<le> 9999"
  shows "time_Parse ''Jan 2, 2006''
           (shortMonthNames ! m @ CHR '' '' # showDay d @ CHR '','' # CHR '' '' # showYear y)
         = Inr (time_Date (int y) (int m + 1) (int d) 0 0 0 0 UTC)"
proof -
  from assms(3) daysIn_le_31 [OF assms(1), of "int y"] have "d < 100" by linarith
  with assms show ?thesis
    apply (simp add: time_Parse_def stdChunks_def del: parseChunks.simps)
    apply (subst parseChunks.simps(4))
    apply (simp add: lookup_short parseChunks_tail del: parseChunks.simps)
    done
qed

lemma time_Parse_long_short:
  assumes "m < 12" "m \<noteq> 4"
  shows "time_Parse ''January 2, 2006'' (shortMonthNames ! m @ CHR '' '' # r) = Inl ErrBad"
  using assms
  apply (simp add: time_Parse_def stdChunks_def del: parseChunks.simps)
  apply (subst parseChunks.simps(3))
  apply (simp add: lookup_long_short del: parseChunks.simps)
  done

lemma May_short_long: "shortMonthNames ! 4 = longMonthNames ! 4"
  by (simp add: shortMonthNames_def longMonthNames_def)

lemma tryLayouts_date:
  assumes "m < 12" "1 \<le> d" "int d \<le> daysIn (int m + 1) (int y)" "y \<le> 9999"
    and "name = longMonthNames ! m \<or> name = shortMonthNames ! m"
  shows "tryLayouts layouts (name @ CHR '' '' # showDay d @ CHR '','' # CHR '' '' # showYear y)
         = Inr (time_Date (int y) (int m + 1) (int d) 12 0 0 0 UTC)"
proof -
  consider (long) "name = longMonthNames ! m" | (short) "name = shortMonthNames ! m" "m \<noteq> 4"
    using assms(5) May_short_long by (cases "m = 4") auto
  then show ?thesis
  proof cases
    case long
    then show ?thesis
      by (simp add: layouts_def time_Parse_long [OF assms(1-4)] time_Date_def)
  next
    case short
    then show ?thesis
      by (simp add: layouts_def time_Parse_long_short [OF assms(1)]
          time_Parse_short [OF assms(1-4)] time_Date_def)
  qed
qed


lemma month_name_head:
  assumes "m < 12" "name = longMonthNames ! m \<or> name = shortMonthNames ! m"
  shows "name \<noteq> [] \<and> 33 \<le> (of_char (hd name) :: nat) \<and> (of_char (hd name) :: nat) \<le> 126"
proof -
  have l: "longMonthNames ! m \<noteq> [] \<and> 33 \<le> (of_char (hd (longMonthNames ! m)) :: nat)
      \<and> (of_char (hd (longMonthNames ! m)) :: nat) \<le> 126"
    using month_index_cases [OF assms(1)]
    by (elim insertE emptyE) (simp_all add: longMonthNames_def)
  have s: "shortMonthNames ! m \<noteq> [] \<and> 33 \<le> (of_char (hd (shortMonthNames ! m)) :: nat)
      \<and> (of_char (hd (shortMonthNames ! m)) :: nat) \<le> 126"
    using month_index_cases [OF assms(1)]
    by (elim insertE emptyE) (simp_all add: shortMonthNames_def)
  from assms(2) l s show ?thesis by (elim disjE) simp_all
qed


text \<open>
  Claim C2. A page header \<open>Weekday, Month Day, Year\<close> (the weekday any text without a
  comma, the month by its long or its short English name, the day unpadded, the year in
  four digits, the day one that the month has) parses to the instant whose year, month
  and day are the ones written, at 12:00:00 in UTC. The result is a function of the
  header alone, so two calls on one header return one instant.
\<close>

theorem parseAppleDate_literal_date:
  assumes "CHR '','' \<notin> set weekday"
    and "m < 12" and "1 \<le> d" and "int d \<le> daysIn (int m + 1) (int y)" and "y \<le> 9999"
    and "name = longMonthNames ! m \<or> name = shortMonthNames ! m"
  shows "parseAppleDate (weekday @ '', '' @ name @ '' '' @ showDay d @ '', '' @ showYear y)
         = Inr \<lparr>Year = int y, Month = int m + 1, Day = int d,
                Hour = 12, Minute = 0, Second = 0, Nanosecond = 0, Loc = UTC\<rparr>"
proof -
  let ?rest = "name @ CHR '' '' # showDay d @ CHR '','' # CHR '' '' # showYear y"
  obtain c cs where name: "name = c # cs" and c: "33 \<le> (of_char c :: nat)" "(of_char c :: nat) \<le> 126"
    using month_name_head [OF assms(2,6)] by (cases name) auto
  have split: "SplitN2 (weekday @ CHR '','' # CHR '' '' # ?rest) (CHR '','') = [weekday, CHR '' '' # ?rest]"
    by (rule SplitN2_first [OF assms(1)])
  have "?rest = c # (cs @ CHR '' '' # showDay d @ CHR '','' # CHR '' '' # butlast (showYear y)) @ [digitChar y]"
    by (simp add: name showYear_def)
  moreover have "TrimSpace (CHR '' '' # c # (cs @ CHR '' '' # showDay d @ CHR '','' # CHR '' '' # butlast (showYear y)) @ [digitChar y])
     = c # (cs @ CHR '' '' # showDay d @ CHR '','' # CHR '' '' # butlast (showYear y)) @ [digitChar y]"
    by (rule TrimSpace_graphic [OF c]) (use digit_range [of y] in linarith)+
  ultimately have "TrimSpace (CHR '' '' # ?rest) = ?rest"
    by (simp only:)
  with split have "parseAppleDate (weekday @ CHR '','' # CHR '' '' # ?rest) = tryLayouts layouts ?rest"
    by (simp add: parseAppleDate_def Let_def)
  then show ?thesis
    using tryLayouts_date [OF assms(2-6)] by (simp add: time_Date_def)
qed


theorem parseAppleDate_literal_date_witness:
  "CHR '','' \<notin> set ''Wednesday'' \<and> (4::nat) < 12 \<and> (1::nat) \<le> 14
   \<and> int 14 \<le> daysIn (int 4 + 1) (int 2025) \<and> (2025::nat) \<le> 9999
   \<and> ''May'' = longMonthNames ! 4
   \<and> parseAppleDate ''Wednesday, May 14, 2025''
       = Inr \<lparr>Year = 2025, Month = 5, Day = 14,
              Hour = 12, Minute = 0, Second = 0, Nanosecond = 0, Loc = UTC\<rparr>"
proof -
  have h: "CHR '','' \<notin> set ''Wednesday''" "(4::nat) < 12" "(1::nat) \<le> 14"
    "int 14 \<le> daysIn (int 4 + 1) (int 2025)" "(2025::nat) \<le> 9999"
    "''May'' = longMonthNames ! 4 \<or> ''May'' = shortMonthNames ! 4"
    by (simp_all add: daysIn_def isLeap_def longMonthNames_def)
  have s: "showDay 14 = ''14''" "showYear 2025 = ''2025''"
    by code_simp+
  from parseAppleDate_literal_date [OF h] h show ?thesis
    by (simp add: s longMonthNames_def)
qed

section \<open>The sample export, run\<close>


lemma sample_a:
  "processEntryHTML sampleWorld ''/t/Entries/a.html'' ''/t/Resources'' ''UTC'' 0 =
     \<lparr>outcome = Inr (entryA, [(''/t/Resources/A.PNG'', ''photos/01010101010101010101010101010101.png'')]),
      uuidsDrawn = 2, procLogs = [LogNonImage ''.mov'' ''/t/Entries/a.html'']\<rparr>"
  by code_simp
lemma sample_b:
  "processEntryHTML sampleWorld ''/t/Entries/b.htm'' ''/t/Resources'' ''UTC'' 2 =
     \<lparr>outcome = Inr (entryB, [(''/t/Resources/A.PNG'', ''photos/03030303030303030303030303030303.png'')]),
      uuidsDrawn = 4, procLogs = []\<rparr>"
  by code_simp
lemma sample_c:
  "processEntryHTML sampleWorld ''/t/Entries/c.html'' ''/t/Resources'' ''UTC'' 4 =
     \<lparr>outcome = Inl (ErrEmptyEntry ''/t/Entries/c.html''), uuidsDrawn = 5,
      procLogs = [LogEmptyEntry ''/t/Entries/c.html'']\<rparr>"
  by code_simp
lemma sample_g:
  "processEntryHTML sampleWorld ''/t/Entries/g.html'' ''/t/Resources'' ''UTC'' 5 =
     \<lparr>outcome = Inl (ErrDateUnparsed ''/t/Entries/g.html''), uuidsDrawn = 6,
      procLogs = [LogDateUnparsed ''garbage text'' ''/t/Entries/g.html'']\<rparr>"
  by code_simp

lemma sample_names:
  "isHTMLName sampleWorld ''a.html''" "isHTMLName sampleWorld ''b.htm''" "isHTMLName sampleWorld ''c.html''" "isHTMLName sampleWorld ''g.html''"
  by code_simp+

lemma sample_unzip: "unzip sampleWorld ''in.zip'' ''/t'' = None"
  by code_simp

lemma sample_paths: "detectPaths sampleWorld ''/t'' = (''/t/Entries'', ''/t/Resources'')"
  by code_simp

lemma sample_zip:
  "createDayOneZip sampleWorld ''out.zip'' j
     [(''/t/Resources/A.PNG'', ''photos/03030303030303030303030303030303.png'')] ''/t''
   = (None, [LogCopied ''/t/Resources/A.PNG'' ''photos/03030303030303030303030303030303.png''])"
  by (simp add: createDayOneZip_def sampleWorld_def)

lemma sample_walk:
  "walkItems sampleWorld ''/t/Resources'' ''UTC'' sampleItems
     \<lparr>dayOneJournal = \<lparr>Metadata = [(''version'', ''1.0'')], Entries = []\<rparr>,
      allMediaToCopy = [], runUUIDs = 0, runLogs = []\<rparr>
   = (None,
     \<lparr>dayOneJournal = \<lparr>Metadata = [(''version'', ''1.0'')], Entries = [entryA, entryB]\<rparr>,
      allMediaToCopy = [(''/t/Resources/A.PNG'', ''photos/03030303030303030303030303030303.png'')],
      runUUIDs = 6,
      runLogs = [LogNonImage ''.mov'' ''/t/Entries/a.html'',
        LogEmptyEntry ''/t/Entries/c.html'',
        LogEntrySkipped ''/t/Entries/c.html'' (ErrEmptyEntry ''/t/Entries/c.html''),
        LogDateUnparsed ''garbage text'' ''/t/Entries/g.html'',
        LogEntrySkipped ''/t/Entries/g.html'' (ErrDateUnparsed ''/t/Entries/g.html'')]\<rparr>)"
  by (simp add: sampleItems_def walkFn_def Let_def sample_names sample_a sample_b sample_c
      sample_g mergeMedia_def entryA_def entryB_def)

lemma sample_main:
  "main sampleWorld ''in.zip'' ''out.zip'' ''UTC'' =
     Completed \<lparr>Metadata = [(''version'', ''1.0'')], Entries = [entryA, entryB]\<rparr>
       [(''/t/Resources/A.PNG'', ''photos/03030303030303030303030303030303.png'')] sampleLogs"
proof -
  have "mkdirTemp sampleWorld = Inr ''/t''" "osStat sampleWorld x = StatOK"
    "walkDir sampleWorld y = sampleItems" for x y
    by (simp_all add: sampleWorld_def)
  then show ?thesis
    by (simp add: main_def initRunState_def sample_unzip sample_paths sample_walk sample_zip
        sampleLogs_def)
qed

lemma sample_c_header:
  "TrimSpace (firstText (docFind sel_pageHeader docDateOnly)) = ''Friday, May 16, 2025''"
  by code_simp

lemma sample_c_date:
  "parseAppleDate ''Friday, May 16, 2025''
   = Inr \<lparr>Year = 2025, Month = 5, Day = 16, Hour = 12, Minute = 0, Second = 0,
           Nanosecond = 0, Loc = UTC\<rparr>"
  by code_simp

lemma sample_c_walk:
  "walkBody sampleWorld p cd docDateOnly (initLoopState n) = initLoopState n"
  by (simp add: walkBody_def docDateOnly_def page_def headerDiv_def docFind_def Children_def
      sel_pageContainer_def sel_pageHeader_def hasClass_def isHTMLSpace_def processChild_def
      convertAndAppendP_def initLoopState_def)

lemma sample_c_title: "extractTitle docDateOnly ''/t/Entries/c.html'' = []"
  by code_simp

lemma sample_only_title:
  "extractTitle docDateOnly ''/t/Entries/2025-05-16_Only_Title.html'' = ''Only Title''"
  by code_simp

lemma TrimSpace_Nil: "TrimSpace [] = []"
  by (simp add: TrimSpace_def TrimLeftSpace_def TrimRightSpace_def)

section \<open>No empty entry\<close>

lemma processEntryHTML_nonempty:
  assumes "outcome (processEntryHTML w p r tz n) = Inr (e, m)"
  shows "Text e \<noteq> [] \<or> Photos e \<noteq> []"
  using assms
  by (auto simp: processEntryHTML_def Let_def split: sum.splits if_splits)

lemma processEntryHTML_success:
  assumes "readFile w p = Inr f" and "parseHTML w f = Inr doc"
    and "TrimSpace (firstText (docFind sel_pageHeader doc)) \<noteq> []"
    and "parseAppleDate (TrimSpace (firstText (docFind sel_pageHeader doc))) = Inr t"
  shows "processEntryHTML w p r tz n =
     (let st = walkBody w p (formatRFC3339 t) doc (initLoopState (Suc n));
          text0 = TrimSpace (bodyMarkdownBuilder st);
          text1 = (if extractTitle doc p \<noteq> [] then ''# '' @ extractTitle doc p @ blankLine @ text0
                   else text0)
      in if text1 = [] \<and> length (entryPhotos st) = 0
         then \<lparr>outcome = Inl (ErrEmptyEntry p), uuidsDrawn = uuidCalls st,
                procLogs = logs st @ [LogEmptyEntry p]\<rparr>
         else \<lparr>outcome = Inr (\<lparr>UUID = newDayOneUUID w n, CreationDate = formatRFC3339 t,
                                ModifiedDate = formatRFC3339 t,
                                Text = text1, Starred = False, TimeZone = tz,
                                Photos = entryPhotos st\<rparr>, mediaToCopy st),
                uuidsDrawn = uuidCalls st, procLogs = logs st\<rparr>)"
  using assms by (simp add: processEntryHTML_def Let_def)

lemma walkFn_entries:
  assumes "walkFn w r tz item st = (err, st')"
    and "\<forall>e \<in> set (Entries (dayOneJournal st)). Text e \<noteq> [] \<or> Photos e \<noteq> []"
  shows "\<forall>e \<in> set (Entries (dayOneJournal st')). Text e \<noteq> [] \<or> Photos e \<noteq> []"
  using assms
  by (auto simp: walkFn_def Let_def split: option.splits sum.splits if_splits prod.splits)

lemma walkItems_entries:
  assumes "walkItems w r tz items st = (err, st')"
    and "\<forall>e \<in> set (Entries (dayOneJournal st)). Text e \<noteq> [] \<or> Photos e \<noteq> []"
  shows "\<forall>e \<in> set (Entries (dayOneJournal st')). Text e \<noteq> [] \<or> Photos e \<noteq> []"
  using assms
proof (induction items arbitrary: st)
  case Nil
  then show ?case by simp
next
  case (Cons item items)
  obtain err1 st1 where step: "walkFn w r tz item st = (err1, st1)"
    by (cases "walkFn w r tz item st")
  have inv1: "\<forall>e \<in> set (Entries (dayOneJournal st1)). Text e \<noteq> [] \<or> Photos e \<noteq> []"
    by (rule walkFn_entries [OF step Cons.prems(2)])
  show ?case
  proof (cases err1)
    case None
    with step Cons.prems(1) have "walkItems w r tz items st1 = (err, st')" by simp
    from Cons.IH [OF this inv1] show ?thesis .
  next
    case (Some x)
    with step Cons.prems(1) have "st' = st1" by simp
    with inv1 show ?thesis by simp
  qed
qed

lemma main_entries:
  assumes "main w i out tz = Completed j media lg"
  shows "\<forall>e \<in> set (Entries j). Text e \<noteq> [] \<or> Photos e \<noteq> []"
proof -
  from assms obtain r ep st0 st where
    w: "walkItems w r tz (walkDir w ep) st0 = (None, st)" and j: "j = dayOneJournal st"
    and st0: "Entries (dayOneJournal st0) = []"
    by (auto simp: main_def Let_def initRunState_def
        split: if_splits sum.splits option.splits prod.splits)
  from walkItems_entries [OF w] st0 j show ?thesis by simp
qed

text \<open>
  Claim C1. \<open>processEntryHTML\<close> never returns an entry whose text and photo list are both
  empty: where the text after the title step is empty and no photo was recorded it
  returns the empty-entry error; and no entry of the journal of a completed run has both
  empty.
\<close>

theorem no_empty_entry_emitted:
  "(outcome (processEntryHTML w p r tz n) = Inr (e, m) \<longrightarrow> Text e \<noteq> [] \<or> Photos e \<noteq> [])
   \<and> (readFile w p = Inr f \<and> parseHTML w f = Inr doc
        \<and> TrimSpace (firstText (docFind sel_pageHeader doc)) \<noteq> []
        \<and> parseAppleDate (TrimSpace (firstText (docFind sel_pageHeader doc))) = Inr t
        \<and> extractTitle doc p = []
        \<and> TrimSpace (bodyMarkdownBuilder (walkBody w p (formatRFC3339 t) doc (initLoopState (Suc n)))) = []
        \<and> entryPhotos (walkBody w p (formatRFC3339 t) doc (initLoopState (Suc n))) = []
       \<longrightarrow> outcome (processEntryHTML w p r tz n) = Inl (ErrEmptyEntry p))
   \<and> (main w i out tz = Completed j media lg
       \<longrightarrow> (\<forall>e' \<in> set (Entries j). Text e' \<noteq> [] \<or> Photos e' \<noteq> []))"
proof (intro conjI impI)
  assume "outcome (processEntryHTML w p r tz n) = Inr (e, m)"
  then show "Text e \<noteq> [] \<or> Photos e \<noteq> []" by (rule processEntryHTML_nonempty)
next
  assume a: "readFile w p = Inr f \<and> parseHTML w f = Inr doc
        \<and> TrimSpace (firstText (docFind sel_pageHeader doc)) \<noteq> []
        \<and> parseAppleDate (TrimSpace (firstText (docFind sel_pageHeader doc))) = Inr t
        \<and> extractTitle doc p = []
        \<and> TrimSpace (bodyMarkdownBuilder (walkBody w p (formatRFC3339 t) doc (initLoopState (Suc n)))) = []
        \<and> entryPhotos (walkBody w p (formatRFC3339 t) doc (initLoopState (Suc n))) = []"
  then have "readFile w p = Inr f" "parseHTML w f = Inr doc"
    "TrimSpace (firstText (docFind sel_pageHeader doc)) \<noteq> []"
    "parseAppleDate (TrimSpace (firstText (docFind sel_pageHeader doc))) = Inr t"
    by simp_all
  from processEntryHTML_success [OF this] a
  show "outcome (processEntryHTML w p r tz n) = Inl (ErrEmptyEntry p)"
    by (simp add: Let_def)
next
  assume "main w i out tz = Completed j media lg"
  then show "\<forall>e' \<in> set (Entries j). Text e' \<noteq> [] \<or> Photos e' \<noteq> []" by (rule main_entries)
qed

theorem no_empty_entry_emitted_witness:
  "outcome (processEntryHTML sampleWorld ''/t/Entries/a.html'' ''/t/Resources'' ''UTC'' 0)
     = Inr (entryA, [(''/t/Resources/A.PNG'', ''photos/01010101010101010101010101010101.png'')])
   \<and> \<not> (Text entryA = [] \<and> Photos entryA = [])
   \<and> readFile sampleWorld ''/t/Entries/c.html'' = Inr ''/t/Entries/c.html''
   \<and> parseHTML sampleWorld ''/t/Entries/c.html'' = Inr docDateOnly
   \<and> TrimSpace (firstText (docFind sel_pageHeader docDateOnly)) \<noteq> []
   \<and> extractTitle docDateOnly ''/t/Entries/c.html'' = []
   \<and> outcome (processEntryHTML sampleWorld ''/t/Entries/c.html'' ''/t/Resources'' ''UTC'' 4)
       = Inl (ErrEmptyEntry ''/t/Entries/c.html'')
   \<and> main sampleWorld ''in.zip'' ''out.zip'' ''UTC''
       = Completed \<lparr>Metadata = [(''version'', ''1.0'')], Entries = [entryA, entryB]\<rparr>
           [(''/t/Resources/A.PNG'', ''photos/03030303030303030303030303030303.png'')] sampleLogs
   \<and> \<not> (Text entryA = [] \<and> Photos entryA = [])
   \<and> \<not> (Text entryB = [] \<and> Photos entryB = [])"
proof -
  let ?t = "\<lparr>Year = 2025, Month = 5, Day = 16, Hour = 12, Minute = 0, Second = 0,
            Nanosecond = 0, Loc = UTC\<rparr>"
  have a: "outcome (processEntryHTML sampleWorld ''/t/Entries/a.html'' ''/t/Resources'' ''UTC'' 0)
     = Inr (entryA, [(''/t/Resources/A.PNG'', ''photos/01010101010101010101010101010101.png'')])"
    by (simp add: sample_a)
  have c: "readFile sampleWorld ''/t/Entries/c.html'' = Inr ''/t/Entries/c.html''"
    "parseHTML sampleWorld ''/t/Entries/c.html'' = Inr docDateOnly"
    by (simp_all add: sampleWorld_def)
  have h: "TrimSpace (firstText (docFind sel_pageHeader docDateOnly)) \<noteq> []"
    "parseAppleDate (TrimSpace (firstText (docFind sel_pageHeader docDateOnly))) = Inr ?t"
    by (simp_all add: sample_c_header sample_c_date)
  have s: "TrimSpace (bodyMarkdownBuilder (walkBody sampleWorld ''/t/Entries/c.html''
              (formatRFC3339 ?t) docDateOnly (initLoopState (Suc 4)))) = []"
    "entryPhotos (walkBody sampleWorld ''/t/Entries/c.html''
              (formatRFC3339 ?t) docDateOnly (initLoopState (Suc 4))) = []"
    by (simp_all only: sample_c_walk) (simp_all add: initLoopState_def TrimSpace_Nil)
  note T1 = no_empty_entry_emitted [where w = sampleWorld and p = "''/t/Entries/a.html''"
      and r = "''/t/Resources''" and tz = "''UTC''" and n = 0 and e = entryA
      and m = "[(''/t/Resources/A.PNG'', ''photos/01010101010101010101010101010101.png'')]"
      and i = "''in.zip''" and out = "''out.zip''"
      and j = "\<lparr>Metadata = [(''version'', ''1.0'')], Entries = [entryA, entryB]\<rparr>"
      and media = "[(''/t/Resources/A.PNG'', ''photos/03030303030303030303030303030303.png'')]"
      and lg = sampleLogs]
  note T2 = no_empty_entry_emitted [where w = sampleWorld and p = "''/t/Entries/c.html''"
      and r = "''/t/Resources''" and tz = "''UTC''" and n = 4 and f = "''/t/Entries/c.html''"
      and doc = docDateOnly and t = ?t]
  from T1 a have 1: "Text entryA \<noteq> [] \<or> Photos entryA \<noteq> []" by blast
  from T2 c h s sample_c_title
  have 2: "outcome (processEntryHTML sampleWorld ''/t/Entries/c.html'' ''/t/Resources'' ''UTC'' 4)
       = Inl (ErrEmptyEntry ''/t/Entries/c.html'')" by blast
  from T1 sample_main
  have 3: "\<forall>e \<in> set (Entries \<lparr>Metadata = [(''version'', ''1.0'')], Entries = [entryA, entryB]\<rparr>).
       Text e \<noteq> [] \<or> Photos e \<noteq> []" by blast
  from a 1 c h(1) sample_c_title 2 sample_main 3 show ?thesis by simp
qed

section \<open>The title\<close>

lemma ReplaceAll_char:
  "ReplaceAll s old [new] = map (\<lambda>c. if c = old then new else c) s"
  by (induction s) (simp_all add: ReplaceAll_def)

lemma SplitN2_none:
  assumes "sep \<notin> set s"
  shows "SplitN2 s sep = [s]"
  using assms by (simp add: SplitN2_def)

lemma walkFn_emits:
  assumes "outcome (processEntryHTML w p r tz (runUUIDs st)) = Inr (e, m)"
    and "isHTMLName w nm"
  shows "\<exists>st'. walkFn w r tz \<lparr>wPath = p, wName = nm, wIsDir = False, wErr = None\<rparr> st = (None, st')
           \<and> Entries (dayOneJournal st') = Entries (dayOneJournal st) @ [e]
           \<and> allMediaToCopy st' = mergeMedia m (allMediaToCopy st)
           \<and> runUUIDs st' = uuidsDrawn (processEntryHTML w p r tz (runUUIDs st))"
proof -
  from processEntryHTML_nonempty [OF assms(1)] have "\<not> (Text e = [] \<and> length (Photos e) = 0)"
    by auto
  with assms show ?thesis
    by (simp add: walkFn_def Let_def)
qed

text \<open>
  Claim C9. A document with a readable date and a title (from the title element or from
  the file name), whose body buffer trims to nothing and which has no photo, is returned
  as an entry whose text is exactly the heading \<open># title\<close> followed by a blank line, and
  the walk appends that entry to the journal.
\<close>

theorem title_only_entry_is_emitted:
  assumes "readFile w p = Inr f" and "parseHTML w f = Inr doc"
    and "TrimSpace (firstText (docFind sel_pageHeader doc)) \<noteq> []"
    and "parseAppleDate (TrimSpace (firstText (docFind sel_pageHeader doc))) = Inr t"
    and "extractTitle doc p \<noteq> []"
    and "TrimSpace (bodyMarkdownBuilder (walkBody w p (formatRFC3339 t) doc (initLoopState (Suc n)))) = []"
    and "entryPhotos (walkBody w p (formatRFC3339 t) doc (initLoopState (Suc n))) = []"
  shows "\<exists>e m. outcome (processEntryHTML w p r tz n) = Inr (e, m)
           \<and> Text e = ''# '' @ extractTitle doc p @ blankLine \<and> Photos e = []
           \<and> (isHTMLName w nm \<and> runUUIDs st = n \<longrightarrow>
                (\<exists>st'. walkFn w r tz \<lparr>wPath = p, wName = nm, wIsDir = False, wErr = None\<rparr> st
                         = (None, st')
                       \<and> Entries (dayOneJournal st') = Entries (dayOneJournal st) @ [e]))"
proof -
  let ?S = "walkBody w p (formatRFC3339 t) doc (initLoopState (Suc n))"
  let ?e = "\<lparr>UUID = newDayOneUUID w n, CreationDate = formatRFC3339 t,
             ModifiedDate = formatRFC3339 t, Text = ''# '' @ extractTitle doc p @ blankLine,
             Starred = False, TimeZone = tz, Photos = []\<rparr>"
  from processEntryHTML_success [OF assms(1-4), of r tz n] assms(5-7)
  have out: "outcome (processEntryHTML w p r tz n) = Inr (?e, mediaToCopy ?S)"
    by (simp add: Let_def)
  have "isHTMLName w nm \<and> runUUIDs st = n \<longrightarrow>
          (\<exists>st'. walkFn w r tz \<lparr>wPath = p, wName = nm, wIsDir = False, wErr = None\<rparr> st = (None, st')
                 \<and> Entries (dayOneJournal st') = Entries (dayOneJournal st) @ [?e])"
  proof
    assume h: "isHTMLName w nm \<and> runUUIDs st = n"
    with out have "outcome (processEntryHTML w p r tz (runUUIDs st)) = Inr (?e, mediaToCopy ?S)"
      by simp
    from walkFn_emits [OF this] h
    show "\<exists>st'. walkFn w r tz \<lparr>wPath = p, wName = nm, wIsDir = False, wErr = None\<rparr> st = (None, st')
                 \<and> Entries (dayOneJournal st') = Entries (dayOneJournal st) @ [?e]"
      by blast
  qed
  with out show ?thesis by auto
qed

theorem title_only_entry_is_emitted_witness:
  "readFile sampleWorld ''/t/Entries/2025-05-16_Only_Title.html''
     = Inr ''/t/Entries/2025-05-16_Only_Title.html''
   \<and> parseHTML sampleWorld ''/t/Entries/2025-05-16_Only_Title.html'' = Inr docDateOnly
   \<and> TrimSpace (firstText (docFind sel_pageHeader docDateOnly)) \<noteq> []
   \<and> extractTitle docDateOnly ''/t/Entries/2025-05-16_Only_Title.html'' \<noteq> []
   \<and> isHTMLName sampleWorld ''2025-05-16_Only_Title.html''
   \<and> (\<exists>e m. outcome (processEntryHTML sampleWorld ''/t/Entries/2025-05-16_Only_Title.html''
                  ''/t/Resources'' ''UTC'' 4) = Inr (e, m)
         \<and> Text e = ''# Only Title'' @ blankLine \<and> Photos e = []
         \<and> (\<exists>st'. walkFn sampleWorld ''/t/Resources'' ''UTC''
                      \<lparr>wPath = ''/t/Entries/2025-05-16_Only_Title.html'',
                       wName = ''2025-05-16_Only_Title.html'', wIsDir = False, wErr = None\<rparr>
                      \<lparr>dayOneJournal = \<lparr>Metadata = [], Entries = [entryA]\<rparr>,
                       allMediaToCopy = [], runUUIDs = 4, runLogs = []\<rparr> = (None, st')
                  \<and> Entries (dayOneJournal st') = [entryA] @ [e]))"
proof -
  let ?p = "''/t/Entries/2025-05-16_Only_Title.html''"
  let ?t = "\<lparr>Year = 2025, Month = 5, Day = 16, Hour = 12, Minute = 0, Second = 0,
            Nanosecond = 0, Loc = UTC\<rparr>"
  let ?st = "\<lparr>dayOneJournal = \<lparr>Metadata = [], Entries = [entryA]\<rparr>,
              allMediaToCopy = [], runUUIDs = 4, runLogs = []\<rparr>"
  have c: "readFile sampleWorld ?p = Inr ?p" "parseHTML sampleWorld ?p = Inr docDateOnly"
    by (simp_all add: sampleWorld_def)
  have h: "TrimSpace (firstText (docFind sel_pageHeader docDateOnly)) \<noteq> []"
    "parseAppleDate (TrimSpace (firstText (docFind sel_pageHeader docDateOnly))) = Inr ?t"
    by (simp_all add: sample_c_header sample_c_date)
  have ti: "extractTitle docDateOnly ?p \<noteq> []"
    by (simp add: sample_only_title)
  have s: "TrimSpace (bodyMarkdownBuilder (walkBody sampleWorld ?p
              (formatRFC3339 ?t) docDateOnly (initLoopState (Suc 4)))) = []"
    "entryPhotos (walkBody sampleWorld ?p
              (formatRFC3339 ?t) docDateOnly (initLoopState (Suc 4))) = []"
    by (simp_all only: sample_c_walk) (simp_all add: initLoopState_def TrimSpace_Nil)
  have nm: "isHTMLName sampleWorld ''2025-05-16_Only_Title.html''"
    by code_simp
  from title_only_entry_is_emitted [OF c h ti s, of "''/t/Resources''" "''UTC''"
      "''2025-05-16_Only_Title.html''" ?st] nm
  have "\<exists>e m. outcome (processEntryHTML sampleWorld ?p ''/t/Resources'' ''UTC'' 4) = Inr (e, m)
         \<and> Text e = ''# Only Title'' @ blankLine \<and> Photos e = []
         \<and> (\<exists>st'. walkFn sampleWorld ''/t/Resources'' ''UTC''
                      \<lparr>wPath = ?p, wName = ''2025-05-16_Only_Title.html'', wIsDir = False,
                       wErr = None\<rparr> ?st = (None, st')
                  \<and> Entries (dayOneJournal st') = [entryA] @ [e])"
    by (simp add: sample_only_title)
  with c h(1) ti nm show ?thesis by simp
qed

section \<open>Image references\<close>

lemma sample_mov_ext:
  "ToLower sampleWorld (filepath_Ext (filepath_Base
     (filepath_Clean (filepath_Join [filepath_Dir ''/t/Entries/a.html'', ''../Resources/B.mov'']))))
   = ''.mov''"
  by code_simp

text \<open>
  With the entry of Go's case tables for U+0130, the extension \<open>.G\<close>, U+0130, \<open>F\<close> is
  lower-cased to \<open>.gif\<close>, and the reference is taken as an image.
\<close>

lemma sample_dotted_capital_I:
  "processImage
     (sampleWorld\<lparr>unicodeToLower :=
        (\<lambda>s. if s = ''.G'' @ [CHR 0xC4, CHR 0xB0] @ ''F'' then ''.gif'' else s)\<rparr>)
     ''/t/Entries/a.html'' ''2025-05-14T12:00:00Z''
     ([], Element ''img'' [(''class'', ''asset_image''),
                           (''src'', ''../Resources/C.G'' @ [CHR 0xC4, CHR 0xB0] @ ''F'')] [])
     (initLoopState 1)
   = \<lparr>entryPhotos = [\<lparr>MD5 = ''d41d8cd9'', Type = ''gif'',
                       Identifier = ''01010101010101010101010101010101'',
                       PhotoCreationDate = ''2025-05-14T12:00:00Z''\<rparr>],
      mediaToCopy = [(''/t/Resources/C.G'' @ [CHR 0xC4, CHR 0xB0] @ ''F'',
                      ''photos/01010101010101010101010101010101.gif'')],
      bodyMarkdownBuilder = ''![](dayone-moment://01010101010101010101010101010101)'' @ blankLine,
      currentPContent = [], uuidCalls = 2, logs = []\<rparr>"
  by code_simp

text \<open>
  Claim C4. An image reference whose resolved path has a lower-cased extension
  (\<open>strings.ToLower\<close> of \<open>filepath.Ext\<close> of the base name) other than \<open>.png\<close>, \<open>.jpg\<close>,
  \<open>.jpeg\<close> and \<open>.gif\<close> leaves the photo list, the media map, the body buffer and the UUID
  count as they are, in every world (so whether or not the file exists); only a warning
  is logged, and the loop goes on with the next image.
\<close>

theorem non_image_reference_dropped:
  assumes "Attr ''src'' (snd imgSel) = Some imgSrc" and "imgSrc \<noteq> []"
    and "ToLower w (filepath_Ext (filepath_Base
           (filepath_Clean (filepath_Join [filepath_Dir p, imgSrc]))))
         \<notin> {''.png'', ''.jpg'', ''.jpeg'', ''.gif''}"
  shows "entryPhotos (processImage w p cd imgSel st) = entryPhotos st
       \<and> mediaToCopy (processImage w p cd imgSel st) = mediaToCopy st
       \<and> bodyMarkdownBuilder (processImage w p cd imgSel st) = bodyMarkdownBuilder st
       \<and> uuidCalls (processImage w p cd imgSel st) = uuidCalls st
       \<and> logs (processImage w p cd imgSel st)
           = logs st @ [LogNonImage (ToLower w (filepath_Ext (filepath_Base
                 (filepath_Clean (filepath_Join [filepath_Dir p, imgSrc]))))) p]
       \<and> fold (processImage w p cd) (imgSel # rest) st
           = fold (processImage w p cd) rest
               (st\<lparr>logs := logs st @ [LogNonImage (ToLower w (filepath_Ext (filepath_Base
                 (filepath_Clean (filepath_Join [filepath_Dir p, imgSrc]))))) p]\<rparr>)"
proof -
  from assms have "processImage w p cd imgSel st
      = st\<lparr>logs := logs st @ [LogNonImage (ToLower w (filepath_Ext (filepath_Base
                 (filepath_Clean (filepath_Join [filepath_Dir p, imgSrc]))))) p]\<rparr>"
    by (simp add: processImage_def Let_def)
  then show ?thesis by simp
qed

theorem non_image_reference_dropped_witness:
  "Attr ''src'' (Element ''img'' [(''class'', ''asset_image''), (''src'', ''../Resources/B.mov'')] [])
     = Some ''../Resources/B.mov''
   \<and> ''../Resources/B.mov'' \<noteq> []
   \<and> ToLower sampleWorld (filepath_Ext (filepath_Base
        (filepath_Clean (filepath_Join [filepath_Dir ''/t/Entries/a.html'', ''../Resources/B.mov'']))))
      = ''.mov''
   \<and> ''.mov'' \<notin> {''.png'', ''.jpg'', ''.jpeg'', ''.gif''}
   \<and> osStat sampleWorld ''/t/Resources/B.mov'' = StatOK
   \<and> processImage sampleWorld ''/t/Entries/a.html'' ''2025-05-14T12:00:00Z''
        ([], Element ''img'' [(''class'', ''asset_image''), (''src'', ''../Resources/B.mov'')] [])
        (initLoopState 1)
      = (initLoopState 1)\<lparr>logs := [LogNonImage ''.mov'' ''/t/Entries/a.html'']\<rparr>"
proof -
  let ?img = "([] :: node list,
     Element ''img'' [(''class'', ''asset_image''), (''src'', ''../Resources/B.mov'')] [])"
  have a: "Attr ''src'' (snd ?img) = Some ''../Resources/B.mov''" "''../Resources/B.mov'' \<noteq> []"
    "''.mov'' \<notin> {''.png'', ''.jpg'', ''.jpeg'', ''.gif''}"
    by simp_all
  have e: "ToLower sampleWorld (filepath_Ext (filepath_Base
     (filepath_Clean (filepath_Join [filepath_Dir ''/t/Entries/a.html'', ''../Resources/B.mov'']))))
     \<notin> {''.png'', ''.jpg'', ''.jpeg'', ''.gif''}"
    unfolding sample_mov_ext by simp
  from non_image_reference_dropped [OF a(1,2) e, where cd = "''2025-05-14T12:00:00Z''"
      and st = "initLoopState 1" and rest = "[]"]
  have "processImage sampleWorld ''/t/Entries/a.html'' ''2025-05-14T12:00:00Z'' ?img (initLoopState 1)
      = (initLoopState 1)\<lparr>logs := [LogNonImage ''.mov'' ''/t/Entries/a.html'']\<rparr>"
    unfolding sample_mov_ext by (simp add: initLoopState_def)
  moreover have "osStat sampleWorld ''/t/Resources/B.mov'' = StatOK"
    by (simp add: sampleWorld_def)
  ultimately show ?thesis using a sample_mov_ext by simp
qed

section \<open>The title taken from the file name\<close>

lemma filepath_Base_file:
  assumes "CHR ''/'' \<notin> set nm" and "nm \<noteq> []"
  shows "filepath_Base (dir @ ''/'' @ nm) = nm"
proof -
  let ?r = "rev nm @ CHR ''/'' # rev dir"
  from assms have "hd (rev nm) \<in> set nm" by (metis hd_in_set rev_is_Nil_conv set_rev)
  with assms(1) have "hd ?r \<noteq> CHR ''/''" using assms(2) by auto
  then have d: "dropWhile (\<lambda>c. c = CHR ''/'') ?r = ?r"
    by (cases ?r) simp_all
  from assms(1) have "\<And>c. c \<in> set (rev nm) \<Longrightarrow> c \<noteq> CHR ''/''" by auto
  from takeWhile_append2 [of "rev nm" "\<lambda>c. c \<noteq> CHR ''/''", OF this]
  have t: "takeWhile (\<lambda>c. c \<noteq> CHR ''/'') ?r = rev nm" by simp
  show ?thesis
    using assms(2) by (simp add: filepath_Base_def Let_def d t)
qed

lemma filepath_Ext_file:
  assumes "CHR ''/'' \<notin> set stem" and "CHR ''/'' \<notin> set x" and "CHR ''.'' \<notin> set x"
  shows "filepath_Ext (stem @ ''.'' @ x) = ''.'' @ x"
proof -
  let ?s = "stem @ ''.'' @ x"
  from assms(1,2) have "\<forall>c \<in> set (rev ?s). c \<noteq> CHR ''/''" by auto
  then have 1: "takeWhile (\<lambda>c. c \<noteq> CHR ''/'') (rev ?s) = rev ?s"
    by (simp only: takeWhile_eq_all_conv)
  from assms(3) have "\<And>c. c \<in> set (rev x) \<Longrightarrow> c \<noteq> CHR ''.''" by auto
  from takeWhile_append2 [of "rev x" "\<lambda>c. c \<noteq> CHR ''.''", OF this]
  have 2: "takeWhile (\<lambda>c. c \<noteq> CHR ''.'') (rev x @ CHR ''.'' # rev stem) = rev x" by simp
  show ?thesis
    unfolding filepath_Ext_def Let_def 1 using 2 by simp
qed

lemma file_stem:
  assumes "CHR ''/'' \<notin> set stem" and "CHR ''/'' \<notin> set x" and "CHR ''.'' \<notin> set x"
  shows "TrimSuffix (filepath_Base (dir @ ''/'' @ stem @ ''.'' @ x))
           (filepath_Ext (filepath_Base (dir @ ''/'' @ stem @ ''.'' @ x))) = stem"
proof -
  from assms(1,2) have "CHR ''/'' \<notin> set (stem @ ''.'' @ x)" "stem @ ''.'' @ x \<noteq> []" by auto
  from filepath_Base_file [OF this] have b: "filepath_Base (dir @ ''/'' @ stem @ ''.'' @ x)
      = stem @ ''.'' @ x" .
  show ?thesis
    unfolding b filepath_Ext_file [OF assms] by (simp add: TrimSuffix_def suffix_def)
qed

lemma extractTitle_fallback:
  assumes "docFind sel_title_span doc = []"
  shows "extractTitle doc p =
     (let parts = SplitN2 (TrimSuffix (filepath_Base p) (filepath_Ext (filepath_Base p))) (CHR ''_'')
      in if length parts > 1 \<and> Contains (parts ! 0) (CHR ''-'')
         then ReplaceAll (parts ! 1) (CHR ''_'') '' '' else [])"
  using assms by (simp add: extractTitle_def Let_def)

text \<open>
  Claim C8, as amended. Where the document has no \<open>div.title span.s2\<close>, the title comes
  from the file name: for a path \<open>dir/stem.x\<close>, if the stem is \<open>prefix_rest\<close> with a hyphen
  and no underscore in the prefix, the title is the rest with every underscore turned
  into a space; if the stem has no underscore, or no hyphen before its first underscore,
  there is no title. A readable, dated document without any title is returned with the
  trimmed body as its text where that body is not empty or a photo was recorded, and
  fails as an empty entry where the body is empty and no photo was recorded.
\<close>

theorem fallback_title_from_filename:
  assumes "docFind sel_title_span doc = []"
    and "p = dir @ ''/'' @ stem @ ''.'' @ x"
    and "CHR ''/'' \<notin> set stem" and "CHR ''/'' \<notin> set x" and "CHR ''.'' \<notin> set x"
  shows "(stem = pre @ CHR ''_'' # rest \<and> CHR ''_'' \<notin> set pre \<and> CHR ''-'' \<in> set pre
          \<longrightarrow> extractTitle doc p = map (\<lambda>c. if c = CHR ''_'' then CHR '' '' else c) rest)
       \<and> (CHR ''_'' \<notin> set stem \<or> CHR ''-'' \<notin> set (takeWhile (\<lambda>c. c \<noteq> CHR ''_'') stem)
          \<longrightarrow> extractTitle doc p = [])
       \<and> (readFile w p = Inr f \<and> parseHTML w f = Inr doc
           \<and> TrimSpace (firstText (docFind sel_pageHeader doc)) \<noteq> []
           \<and> parseAppleDate (TrimSpace (firstText (docFind sel_pageHeader doc))) = Inr t
           \<and> extractTitle doc p = []
          \<longrightarrow> (TrimSpace (bodyMarkdownBuilder (walkBody w p (formatRFC3339 t) doc (initLoopState (Suc n)))) \<noteq> []
                \<or> entryPhotos (walkBody w p (formatRFC3339 t) doc (initLoopState (Suc n))) \<noteq> []
               \<longrightarrow> (\<exists>e m. outcome (processEntryHTML w p r tz n) = Inr (e, m)
                     \<and> Text e = TrimSpace (bodyMarkdownBuilder
                                   (walkBody w p (formatRFC3339 t) doc (initLoopState (Suc n))))))
             \<and> (TrimSpace (bodyMarkdownBuilder (walkBody w p (formatRFC3339 t) doc (initLoopState (Suc n)))) = []
                \<and> entryPhotos (walkBody w p (formatRFC3339 t) doc (initLoopState (Suc n))) = []
               \<longrightarrow> outcome (processEntryHTML w p r tz n) = Inl (ErrEmptyEntry p)))"
proof -
  have fn: "TrimSuffix (filepath_Base p) (filepath_Ext (filepath_Base p)) = stem"
    unfolding assms(2) by (rule file_stem [OF assms(3-5)])
  note ex = extractTitle_fallback [OF assms(1), of p, unfolded fn]
  have 1: "extractTitle doc p = map (\<lambda>c. if c = CHR ''_'' then CHR '' '' else c) rest"
    if a: "stem = pre @ CHR ''_'' # rest \<and> CHR ''_'' \<notin> set pre \<and> CHR ''-'' \<in> set pre"
  proof -
    from a have "SplitN2 stem (CHR ''_'') = [pre, rest]"
      using SplitN2_first [of "CHR ''_''" pre rest] by simp
    with a show ?thesis
      unfolding ex by (simp add: Let_def Contains_def ReplaceAll_char)
  qed
  have 2: "extractTitle doc p = []"
    if b: "CHR ''_'' \<notin> set stem \<or> CHR ''-'' \<notin> set (takeWhile (\<lambda>c. c \<noteq> CHR ''_'') stem)"
  proof (cases "CHR ''_'' \<in> set stem")
    case False
    then show ?thesis unfolding ex by (simp add: Let_def SplitN2_none)
  next
    case True
    with b have "CHR ''-'' \<notin> set (takeWhile (\<lambda>c. c \<noteq> CHR ''_'') stem)" by simp
    with True show ?thesis unfolding ex by (simp add: Let_def SplitN2_def Contains_def)
  qed
  have 3: "(TrimSpace (bodyMarkdownBuilder (walkBody w p (formatRFC3339 t) doc (initLoopState (Suc n)))) \<noteq> []
                \<or> entryPhotos (walkBody w p (formatRFC3339 t) doc (initLoopState (Suc n))) \<noteq> []
               \<longrightarrow> (\<exists>e m. outcome (processEntryHTML w p r tz n) = Inr (e, m)
                     \<and> Text e = TrimSpace (bodyMarkdownBuilder
                                   (walkBody w p (formatRFC3339 t) doc (initLoopState (Suc n))))))
             \<and> (TrimSpace (bodyMarkdownBuilder (walkBody w p (formatRFC3339 t) doc (initLoopState (Suc n)))) = []
                \<and> entryPhotos (walkBody w p (formatRFC3339 t) doc (initLoopState (Suc n))) = []
               \<longrightarrow> outcome (processEntryHTML w p r tz n) = Inl (ErrEmptyEntry p))"
    if c: "readFile w p = Inr f \<and> parseHTML w f = Inr doc
           \<and> TrimSpace (firstText (docFind sel_pageHeader doc)) \<noteq> []
           \<and> parseAppleDate (TrimSpace (firstText (docFind sel_pageHeader doc))) = Inr t
           \<and> extractTitle doc p = []"
  proof -
    from c have "readFile w p = Inr f" "parseHTML w f = Inr doc"
      "TrimSpace (firstText (docFind sel_pageHeader doc)) \<noteq> []"
      "parseAppleDate (TrimSpace (firstText (docFind sel_pageHeader doc))) = Inr t"
      by simp_all
    from processEntryHTML_success [OF this, of r tz n] c show ?thesis
      by (auto simp: Let_def)
  qed
  from 1 2 3 show ?thesis by blast
qed

lemma sample_no_title_element:
  "docFind sel_title_span docDateOnly = []" "docFind sel_title_span docSecond = []"
  by code_simp+

lemma sample_b_header:
  "TrimSpace (firstText (docFind sel_pageHeader docSecond)) = ''Thursday, May 15, 2025''"
  by code_simp

lemma sample_b_date:
  "parseAppleDate ''Thursday, May 15, 2025''
   = Inr \<lparr>Year = 2025, Month = 5, Day = 15, Hour = 12, Minute = 0, Second = 0,
           Nanosecond = 0, Loc = UTC\<rparr>"
  by code_simp

lemma sample_b_walk:
  "walkBody sampleWorld ''/t/Entries/b.htm''
     (formatRFC3339 \<lparr>Year = 2025, Month = 5, Day = 15, Hour = 12, Minute = 0, Second = 0,
           Nanosecond = 0, Loc = UTC\<rparr>) docSecond (initLoopState (Suc 2))
   = \<lparr>entryPhotos = Photos entryB,
      mediaToCopy = [(''/t/Resources/A.PNG'', ''photos/03030303030303030303030303030303.png'')],
      bodyMarkdownBuilder = ''![](dayone-moment://03030303030303030303030303030303)'' @ blankLine,
      currentPContent = [], uuidCalls = 4, logs = []\<rparr>"
  by code_simp

lemma sample_b_text:
  "TrimSpace (''![](dayone-moment://03030303030303030303030303030303)'' @ blankLine)
   = ''![](dayone-moment://03030303030303030303030303030303)''"
  by code_simp

lemma sample_only_title_entry:
  "outcome (processEntryHTML sampleWorld ''/t/Entries/2025-05-16_Only_Title.html''
      ''/t/Resources'' ''UTC'' 4)
   = Inr (\<lparr>UUID = ''04040404040404040404040404040404'', CreationDate = ''2025-05-16T12:00:00Z'',
            ModifiedDate = ''2025-05-16T12:00:00Z'', Text = ''# Only Title'' @ blankLine,
            Starred = False, TimeZone = ''UTC'', Photos = []\<rparr>, [])"
  by code_simp

lemma sample_long_path_title:
  "extractTitle docDateOnly ''/t/my-export_1/Entries/2025-05-16_Only_Title.html'' = ''Only Title''"
  by code_simp

theorem fallback_title_from_filename_witness:
  "docFind sel_title_span docDateOnly = []
   \<and> ''/t/my-export_1/Entries/2025-05-16_Only_Title.html''
       = ''/t/my-export_1/Entries'' @ ''/'' @ ''2025-05-16_Only_Title'' @ ''.'' @ ''html''
   \<and> CHR ''/'' \<notin> set ''2025-05-16_Only_Title'' \<and> CHR ''/'' \<notin> set ''html''
   \<and> CHR ''.'' \<notin> set ''html''
   \<and> ''2025-05-16_Only_Title'' = ''2025-05-16'' @ CHR ''_'' # ''Only_Title''
   \<and> CHR ''_'' \<notin> set ''2025-05-16'' \<and> CHR ''-'' \<in> set ''2025-05-16''
   \<and> extractTitle docDateOnly ''/t/my-export_1/Entries/2025-05-16_Only_Title.html'' = ''Only Title''
   \<and> docFind sel_title_span docSecond = []
   \<and> ''/t/Entries/b.htm'' = ''/t/Entries'' @ ''/'' @ ''b'' @ ''.'' @ ''htm''
   \<and> CHR ''_'' \<notin> set ''b''
   \<and> extractTitle docSecond ''/t/Entries/b.htm'' = []
   \<and> readFile sampleWorld ''/t/Entries/b.htm'' = Inr ''/t/Entries/b.htm''
   \<and> parseHTML sampleWorld ''/t/Entries/b.htm'' = Inr docSecond
   \<and> TrimSpace (firstText (docFind sel_pageHeader docSecond)) \<noteq> []
   \<and> entryPhotos (walkBody sampleWorld ''/t/Entries/b.htm'' ''2025-05-15T12:00:00Z'' docSecond
         (initLoopState (Suc 2))) \<noteq> []
   \<and> (\<exists>e m. outcome (processEntryHTML sampleWorld ''/t/Entries/b.htm'' ''/t/Resources'' ''UTC'' 2)
               = Inr (e, m)
            \<and> Text e = ''![](dayone-moment://03030303030303030303030303030303)'')
   \<and> ''/t/Entries/c.html'' = ''/t/Entries'' @ ''/'' @ ''c'' @ ''.'' @ ''html''
   \<and> extractTitle docDateOnly ''/t/Entries/c.html'' = []
   \<and> parseHTML sampleWorld ''/t/Entries/c.html'' = Inr docDateOnly
   \<and> TrimSpace (bodyMarkdownBuilder (walkBody sampleWorld ''/t/Entries/c.html''
         ''2025-05-16T12:00:00Z'' docDateOnly (initLoopState (Suc 4)))) = []
   \<and> entryPhotos (walkBody sampleWorld ''/t/Entries/c.html''
         ''2025-05-16T12:00:00Z'' docDateOnly (initLoopState (Suc 4))) = []
   \<and> outcome (processEntryHTML sampleWorld ''/t/Entries/c.html'' ''/t/Resources'' ''UTC'' 4)
       = Inl (ErrEmptyEntry ''/t/Entries/c.html'')"
proof -
  let ?p1 = "''/t/my-export_1/Entries/2025-05-16_Only_Title.html''"
  let ?p2 = "''/t/Entries/b.htm''"
  let ?p3 = "''/t/Entries/c.html''"
  let ?t = "\<lparr>Year = 2025, Month = 5, Day = 15, Hour = 12, Minute = 0, Second = 0,
            Nanosecond = 0, Loc = UTC\<rparr>"
  let ?t3 = "\<lparr>Year = 2025, Month = 5, Day = 16, Hour = 12, Minute = 0, Second = 0,
            Nanosecond = 0, Loc = UTC\<rparr>"
  have f2: "formatRFC3339 ?t = ''2025-05-15T12:00:00Z''"
    and f3: "formatRFC3339 ?t3 = ''2025-05-16T12:00:00Z''" by code_simp+
  have p1: "?p1 = ''/t/my-export_1/Entries'' @ ''/'' @ ''2025-05-16_Only_Title'' @ ''.'' @ ''html''"
    and p2: "?p2 = ''/t/Entries'' @ ''/'' @ ''b'' @ ''.'' @ ''htm''"
    and p3: "?p3 = ''/t/Entries'' @ ''/'' @ ''c'' @ ''.'' @ ''html''"
    by simp_all
  have s1: "CHR ''/'' \<notin> set ''2025-05-16_Only_Title''" "CHR ''/'' \<notin> set ''html''"
    "CHR ''.'' \<notin> set ''html''" by simp_all
  have s2: "CHR ''/'' \<notin> set ''b''" "CHR ''/'' \<notin> set ''htm''" "CHR ''.'' \<notin> set ''htm''"
    by simp_all
  have s3: "CHR ''/'' \<notin> set ''c''" "CHR ''/'' \<notin> set ''html''" "CHR ''.'' \<notin> set ''html''"
    by simp_all
  have h1: "''2025-05-16_Only_Title'' = ''2025-05-16'' @ CHR ''_'' # ''Only_Title''
     \<and> CHR ''_'' \<notin> set ''2025-05-16'' \<and> CHR ''-'' \<in> set ''2025-05-16''"
    by simp
  note T1 = fallback_title_from_filename [OF sample_no_title_element(1) p1 s1,
      where pre = "''2025-05-16''" and rest = "''Only_Title''" and w = sampleWorld and f = "[]"
        and t = ?t and n = 0 and r = "[]" and tz = "[]"]
  have "extractTitle docDateOnly ?p1
      = map (\<lambda>c. if c = CHR ''_'' then CHR '' '' else c) ''Only_Title''"
    by (rule T1 [THEN conjunct1, rule_format]) (rule h1)
  then have 1: "extractTitle docDateOnly ?p1 = ''Only Title''"
    by simp
  note T2 = fallback_title_from_filename [OF sample_no_title_element(2) p2 s2,
      where w = sampleWorld and f = ?p2 and t = ?t and n = 2 and r = "''/t/Resources''"
        and tz = "''UTC''" and pre = "[]" and rest = "[]"]
  have h2: "CHR ''_'' \<notin> set ''b''" by simp
  have 2: "extractTitle docSecond ?p2 = []"
    by (rule T2 [THEN conjunct2, THEN conjunct1, rule_format]) (simp add: h2)
  have c: "readFile sampleWorld ?p2 = Inr ?p2" "parseHTML sampleWorld ?p2 = Inr docSecond"
    by (simp_all add: sampleWorld_def)
  have d: "TrimSpace (firstText (docFind sel_pageHeader docSecond)) \<noteq> []"
    "parseAppleDate (TrimSpace (firstText (docFind sel_pageHeader docSecond))) = Inr ?t"
    by (simp_all add: sample_b_header sample_b_date)
  have b: "entryPhotos (walkBody sampleWorld ?p2 (formatRFC3339 ?t) docSecond (initLoopState (Suc 2))) \<noteq> []"
    by (simp only: sample_b_walk) (simp add: entryB_def)
  have "\<exists>e m. outcome (processEntryHTML sampleWorld ?p2 ''/t/Resources'' ''UTC'' 2) = Inr (e, m)
      \<and> Text e = TrimSpace (bodyMarkdownBuilder
            (walkBody sampleWorld ?p2 (formatRFC3339 ?t) docSecond (initLoopState (Suc 2))))"
    by (rule T2 [THEN conjunct2, THEN conjunct2, rule_format, THEN conjunct1, rule_format])
      (intro conjI c d 2, intro disjI2 b)
  then have 3: "\<exists>e m. outcome (processEntryHTML sampleWorld ?p2 ''/t/Resources'' ''UTC'' 2) = Inr (e, m)
      \<and> Text e = ''![](dayone-moment://03030303030303030303030303030303)''"
    by (simp only: sample_b_walk LoopState.select_convs sample_b_text)
  note T3 = fallback_title_from_filename [OF sample_no_title_element(1) p3 s3,
      where w = sampleWorld and f = ?p3 and t = ?t3 and n = 4 and r = "''/t/Resources''"
        and tz = "''UTC''" and pre = "[]" and rest = "[]"]
  have c3: "readFile sampleWorld ?p3 = Inr ?p3" "parseHTML sampleWorld ?p3 = Inr docDateOnly"
    by (simp_all add: sampleWorld_def)
  have d3: "TrimSpace (firstText (docFind sel_pageHeader docDateOnly)) \<noteq> []"
    "parseAppleDate (TrimSpace (firstText (docFind sel_pageHeader docDateOnly))) = Inr ?t3"
    by (simp_all add: sample_c_header sample_c_date)
  have e3: "TrimSpace (bodyMarkdownBuilder (walkBody sampleWorld ?p3 (formatRFC3339 ?t3) docDateOnly
         (initLoopState (Suc 4)))) = []"
    "entryPhotos (walkBody sampleWorld ?p3 (formatRFC3339 ?t3) docDateOnly (initLoopState (Suc 4))) = []"
    by (simp_all only: sample_c_walk) (simp_all add: initLoopState_def TrimSpace_Nil)
  have 4: "outcome (processEntryHTML sampleWorld ?p3 ''/t/Resources'' ''UTC'' 4)
       = Inl (ErrEmptyEntry ?p3)"
    by (rule T3 [THEN conjunct2, THEN conjunct2, rule_format, THEN conjunct2, rule_format])
      (intro conjI c3 d3 sample_c_title, intro conjI e3)
  note h1a = h1 [THEN conjunct1] and h1b = h1 [THEN conjunct2, THEN conjunct1]
    and h1c = h1 [THEN conjunct2, THEN conjunct2]
  from sample_no_title_element p1 s1 h1a h1b h1c 1 p2 h2 2 c d(1) b [unfolded f2] 3 p3
    sample_c_title c3(2)
    e3 [unfolded f3] 4
  show ?thesis by (intro conjI)
qed

theorem untitled_empty_document_fails_counterexample:
  "parseHTML sampleWorld ''/t/Entries/c.html'' = Inr docDateOnly
   \<and> docFind sel_title_span docDateOnly = []
   \<and> extractTitle docDateOnly ''/t/Entries/c.html'' = []
   \<and> outcome (processEntryHTML sampleWorld ''/t/Entries/c.html'' ''/t/Resources'' ''UTC'' 4)
       = Inl (ErrEmptyEntry ''/t/Entries/c.html'')
   \<and> parseHTML sampleWorld ''/t/Entries/2025-05-16_Only_Title.html'' = Inr docDateOnly
   \<and> extractTitle docDateOnly ''/t/Entries/2025-05-16_Only_Title.html'' = ''Only Title''
   \<and> outcome (processEntryHTML sampleWorld ''/t/Entries/2025-05-16_Only_Title.html''
        ''/t/Resources'' ''UTC'' 4)
       = Inr (\<lparr>UUID = ''04040404040404040404040404040404'', CreationDate = ''2025-05-16T12:00:00Z'',
                ModifiedDate = ''2025-05-16T12:00:00Z'', Text = ''# Only Title'' @ blankLine,
                Starred = False, TimeZone = ''UTC'', Photos = []\<rparr>, [])"
proof -
  have "parseHTML sampleWorld ''/t/Entries/c.html'' = Inr docDateOnly"
    "parseHTML sampleWorld ''/t/Entries/2025-05-16_Only_Title.html'' = Inr docDateOnly"
    by (simp_all add: sampleWorld_def)
  moreover have "outcome (processEntryHTML sampleWorld ''/t/Entries/c.html'' ''/t/Resources'' ''UTC'' 4)
       = Inl (ErrEmptyEntry ''/t/Entries/c.html'')"
    by (simp only: sample_c procResult.select_convs)
  ultimately show ?thesis
    using sample_no_title_element(1) sample_c_title sample_only_title sample_only_title_entry
    by (intro conjI)
qed

section \<open>Fatal and recoverable failures\<close>

lemma walkFn_err: "fst (walkFn w r tz item st) = wErr item"
  by (simp add: walkFn_def Let_def split: option.splits sum.splits prod.splits)

lemma walkItems_err:
  "fst (walkItems w r tz items st) = None \<longleftrightarrow> (\<forall>item \<in> set items. wErr item = None)"
proof (induction items arbitrary: st)
  case Nil
  show ?case by simp
next
  case (Cons item items)
  obtain err1 st1 where step: "walkFn w r tz item st = (err1, st1)"
    by (cases "walkFn w r tz item st")
  with walkFn_err [of w r tz item st] have e: "err1 = wErr item" by simp
  show ?case
  proof (cases "wErr item")
    case None
    with step e Cons.IH [of st1] show ?thesis by simp
  next
    case (Some x)
    with step e show ?thesis by simp
  qed
qed

lemma createDayOneZip_err:
  "fst (createDayOneZip w out j media tmp) = None \<longleftrightarrow>
     osCreate w out = None \<and> zipCreate w ''Journal.json'' = None
     \<and> (\<exists>d. jsonMarshalIndent w j = Inr d \<and> zipWrite w d = None)"
  by (auto simp: createDayOneZip_def split: option.splits sum.splits)

lemma main_completed_iff:
  "(\<exists>j media lg. main w i out tz = Completed j media lg) \<longleftrightarrow>
     i \<noteq> [] \<and> out \<noteq> []
     \<and> (\<exists>tmp. mkdirTemp w = Inr tmp \<and> unzip w i tmp = None
           \<and> osStat w (fst (detectPaths w tmp)) \<noteq> StatNotExist
           \<and> (\<forall>item \<in> set (walkDir w (fst (detectPaths w tmp))). wErr item = None)
           \<and> osCreate w out = None \<and> zipCreate w ''Journal.json'' = None
           \<and> (\<exists>d. jsonMarshalIndent w
                      (dayOneJournal (snd (walkItems w (snd (detectPaths w tmp)) tz
                         (walkDir w (fst (detectPaths w tmp)))
                         (initRunState w (snd (detectPaths w tmp)))))) = Inr d
                  \<and> zipWrite w d = None))"
proof (cases "i = [] \<or> out = []")
  case True
  then show ?thesis by (auto simp: main_def)
next
  case args: False
  show ?thesis
  proof (cases "mkdirTemp w")
    case (Inl e)
    with args show ?thesis by (simp add: main_def)
  next
    case (Inr tmp)
    obtain ep rp where dp: "detectPaths w tmp = (ep, rp)" by (cases "detectPaths w tmp")
    obtain err st where wk: "walkItems w rp tz (walkDir w ep) (initRunState w rp) = (err, st)"
      by (cases "walkItems w rp tz (walkDir w ep) (initRunState w rp)")
    obtain ze zl where z: "createDayOneZip w out (dayOneJournal st) (allMediaToCopy st) tmp = (ze, zl)"
      by (cases "createDayOneZip w out (dayOneJournal st) (allMediaToCopy st) tmp")
    from wk walkItems_err [of w rp tz "walkDir w ep" "initRunState w rp"]
    have e: "err = None \<longleftrightarrow> (\<forall>item \<in> set (walkDir w ep). wErr item = None)" by simp
    from z createDayOneZip_err [of w out "dayOneJournal st" "allMediaToCopy st" tmp]
    have c: "ze = None \<longleftrightarrow> osCreate w out = None \<and> zipCreate w ''Journal.json'' = None
       \<and> (\<exists>d. jsonMarshalIndent w (dayOneJournal st) = Inr d \<and> zipWrite w d = None)" by simp
    have "(\<exists>j media lg. main w i out tz = Completed j media lg) \<longleftrightarrow>
       unzip w i tmp = None \<and> osStat w ep \<noteq> StatNotExist \<and> err = None \<and> ze = None"
      using args Inr dp wk z
      by (cases "unzip w i tmp"; cases err; cases ze) (simp_all add: main_def)
    with args Inr dp wk e c show ?thesis by simp
  qed
qed

lemma unit_doc:
  "(isHTMLName w nm \<and> outcome (processEntryHTML w p r tz (runUUIDs st)) = Inl e \<longrightarrow>
        walkFn w r tz \<lparr>wPath = p, wName = nm, wIsDir = False, wErr = None\<rparr> st
          = (None, (st\<lparr>runUUIDs := uuidsDrawn (processEntryHTML w p r tz (runUUIDs st)),
                 runLogs := runLogs st @ procLogs (processEntryHTML w p r tz (runUUIDs st)) @ [LogEntrySkipped p e]\<rparr>))
        \<and> walkItems w r tz (\<lparr>wPath = p, wName = nm, wIsDir = False, wErr = None\<rparr> # items) st
          = walkItems w r tz items
              (st\<lparr>runUUIDs := uuidsDrawn (processEntryHTML w p r tz (runUUIDs st)),
                 runLogs := runLogs st @ procLogs (processEntryHTML w p r tz (runUUIDs st)) @ [LogEntrySkipped p e]\<rparr>))"
  by (simp add: walkFn_def Let_def)

lemma unit_open:
  "(readFile w p = Inl x \<longrightarrow> outcome (processEntryHTML w p r tz n) = Inl (ErrOpenHTML p))"
  by (simp add: processEntryHTML_def)

lemma unit_parse:
  "(readFile w p = Inr f \<and> parseHTML w f = Inl x \<longrightarrow>
        outcome (processEntryHTML w p r tz n) = Inl (ErrParseHTML p))"
  by (simp add: processEntryHTML_def)

lemma unit_nodate:
  "(readFile w p = Inr f \<and> parseHTML w f = Inr doc \<and> TrimSpace (firstText (docFind sel_pageHeader doc)) = [] \<longrightarrow>
        outcome (processEntryHTML w p r tz n) = Inl (ErrNoDate p))"
  by (simp add: processEntryHTML_def Let_def)

lemma unit_baddate:
  "(readFile w p = Inr f \<and> parseHTML w f = Inr doc \<and> TrimSpace (firstText (docFind sel_pageHeader doc)) \<noteq> []
        \<and> parseAppleDate (TrimSpace (firstText (docFind sel_pageHeader doc))) = Inl x \<longrightarrow>
        outcome (processEntryHTML w p r tz n) = Inl (ErrDateUnparsed p))"
  by (simp add: processEntryHTML_def Let_def)

lemma unit_empty:
  "(readFile w p = Inr f \<and> parseHTML w f = Inr doc \<and> TrimSpace (firstText (docFind sel_pageHeader doc)) \<noteq> []
        \<and> parseAppleDate (TrimSpace (firstText (docFind sel_pageHeader doc))) = Inr t \<and> extractTitle doc p = []
        \<and> TrimSpace (bodyMarkdownBuilder (walkBody w p (formatRFC3339 t) doc (initLoopState (Suc n)))) = []
        \<and> entryPhotos (walkBody w p (formatRFC3339 t) doc (initLoopState (Suc n))) = [] \<longrightarrow>
        outcome (processEntryHTML w p r tz n) = Inl (ErrEmptyEntry p))"
  by (simp add: processEntryHTML_def Let_def)

lemma unit_conv:
  "(currentPContent ls \<noteq> [] \<and> convertString w (currentPContent ls) = Inl ce \<longrightarrow>
        convertAndAppendP w p ls = ls\<lparr>currentPContent := [], logs := logs ls @ [LogConvertError p]\<rparr>)"
  by (simp add: convertAndAppendP_def)

lemma unit_nosrc:
  "(Attr ''src'' (snd imgSel) = None \<or> Attr ''src'' (snd imgSel) = Some [] \<longrightarrow>
        processImage w p cd imgSel ls = ls)"
  by (auto simp: processImage_def)

lemma unit_fmt:
  "(Attr ''src'' (snd imgSel) = Some src \<and> src \<noteq> []
        \<and> (ToLower w (filepath_Ext (filepath_Base (filepath_Clean (filepath_Join [filepath_Dir p, src])))))
            \<notin> set imageExts \<longrightarrow>
        processImage w p cd imgSel ls
          = ls\<lparr>logs := logs ls @ [LogNonImage (ToLower w (filepath_Ext (filepath_Base (filepath_Clean (filepath_Join [filepath_Dir p, src]))))) p]\<rparr>)"
  by (simp add: processImage_def Let_def imageExts_def)

lemma unit_missing:
  "(Attr ''src'' (snd imgSel) = Some src \<and> src \<noteq> []
        \<and> (ToLower w (filepath_Ext (filepath_Base (filepath_Clean (filepath_Join [filepath_Dir p, src])))))
            \<in> set imageExts
        \<and> osStat w (filepath_Clean (filepath_Join [filepath_Dir p, src])) = StatNotExist \<longrightarrow>
        processImage w p cd imgSel ls
          = ls\<lparr>logs := logs ls @ [LogImageNotFound (filepath_Clean (filepath_Join [filepath_Dir p, src])) p]\<rparr>)"
  by (simp add: processImage_def Let_def imageExts_def)

lemma unit_md5:
  "(Attr ''src'' (snd imgSel) = Some src \<and> src \<noteq> []
        \<and> (ToLower w (filepath_Ext (filepath_Base (filepath_Clean (filepath_Join [filepath_Dir p, src])))))
            \<in> set imageExts
        \<and> osStat w (filepath_Clean (filepath_Join [filepath_Dir p, src])) \<noteq> StatNotExist
        \<and> calculateMD5 w (filepath_Clean (filepath_Join [filepath_Dir p, src])) = Inl x \<longrightarrow>
        processImage w p cd imgSel ls
          = ls\<lparr>uuidCalls := Suc (uuidCalls ls),
               logs := logs ls @ [LogMD5Failed (filepath_Clean (filepath_Join [filepath_Dir p, src]))]\<rparr>)"
  by (simp add: processImage_def Let_def imageExts_def)

lemma unit_zc:
  "(zipCreate w dst = Some x \<longrightarrow>
        copyMedia w ((orig, dst) # media) = LogZipCreateMedia dst # copyMedia w media)"
  by simp

lemma unit_zo:
  "(zipCreate w dst = None \<and> readFile w orig = Inl x \<longrightarrow>
        copyMedia w ((orig, dst) # media) = LogZipOpenMedia orig # copyMedia w media)"
  by simp

lemma unit_zy:
  "(zipCreate w dst = None \<and> readFile w orig = Inr bytes \<and> ioCopy w dst = Some x \<longrightarrow>
        copyMedia w ((orig, dst) # media) = LogZipCopyMedia orig # copyMedia w media)"
  by simp

lemma unit_zip:
  "(osCreate w out = None \<and> zipCreate w ''Journal.json'' = None
        \<and> jsonMarshalIndent w j = Inr d \<and> zipWrite w d = None \<longrightarrow>
        createDayOneZip w out j media tmp = (None, copyMedia w media))"
  by (simp add: createDayOneZip_def)

text \<open>
  Claim C5, as amended. A run completes exactly when both paths are given, the temporary
  folder can be made, the archive is extracted, the \<open>Entries\<close> folder exists, the walk
  reports no access error, and the output archive and its \<open>Journal.json\<close> can be written;
  the temporary folder and the walk are fatal besides the three conditions of the claim.
  Every other failure skips its unit and the run goes on. A document that cannot be
  opened or parsed, has no date or an unreadable one, or comes out empty makes
  \<open>processEntryHTML\<close> fail; the walk then logs the skipped entry after the warnings of the
  document, leaves the journal and the media map as they are, and goes on with the next
  file. A fragment that fails conversion is logged and dropped. An image reference with
  an extension outside the list, a missing file or an unreadable file is logged and adds
  no photo, no media entry and no placeholder; one without a \<open>src\<close>, or with an empty
  one, is skipped without a log line. A media file that cannot be created, opened or
  copied is logged and the remaining files are copied; once \<open>Journal.json\<close> is written
  \<open>createDayOneZip\<close> does not fail.
\<close>

theorem run_completes_unless_fatal:
  "((\<exists>j media lg. main w i out tz = Completed j media lg) \<longleftrightarrow>
     i \<noteq> [] \<and> out \<noteq> []
     \<and> (\<exists>tmp. mkdirTemp w = Inr tmp \<and> unzip w i tmp = None
           \<and> osStat w (fst (detectPaths w tmp)) \<noteq> StatNotExist
           \<and> (\<forall>item \<in> set (walkDir w (fst (detectPaths w tmp))). wErr item = None)
           \<and> osCreate w out = None \<and> zipCreate w ''Journal.json'' = None
           \<and> (\<exists>d. jsonMarshalIndent w
                      (dayOneJournal (snd (walkItems w (snd (detectPaths w tmp)) tz
                         (walkDir w (fst (detectPaths w tmp)))
                         (initRunState w (snd (detectPaths w tmp)))))) = Inr d
                  \<and> zipWrite w d = None)))
   \<and> (isHTMLName w nm \<and> outcome (processEntryHTML w p r tz (runUUIDs st)) = Inl e \<longrightarrow>
        walkFn w r tz \<lparr>wPath = p, wName = nm, wIsDir = False, wErr = None\<rparr> st
          = (None, (st\<lparr>runUUIDs := uuidsDrawn (processEntryHTML w p r tz (runUUIDs st)),
                 runLogs := runLogs st @ procLogs (processEntryHTML w p r tz (runUUIDs st)) @ [LogEntrySkipped p e]\<rparr>))
        \<and> walkItems w r tz (\<lparr>wPath = p, wName = nm, wIsDir = False, wErr = None\<rparr> # items) st
          = walkItems w r tz items
              (st\<lparr>runUUIDs := uuidsDrawn (processEntryHTML w p r tz (runUUIDs st)),
                 runLogs := runLogs st @ procLogs (processEntryHTML w p r tz (runUUIDs st)) @ [LogEntrySkipped p e]\<rparr>))
   \<and> (readFile w p = Inl x \<longrightarrow> outcome (processEntryHTML w p r tz n) = Inl (ErrOpenHTML p))
   \<and> (readFile w p = Inr f \<and> parseHTML w f = Inl x \<longrightarrow>
        outcome (processEntryHTML w p r tz n) = Inl (ErrParseHTML p))
   \<and> (readFile w p = Inr f \<and> parseHTML w f = Inr doc \<and> TrimSpace (firstText (docFind sel_pageHeader doc)) = [] \<longrightarrow>
        outcome (processEntryHTML w p r tz n) = Inl (ErrNoDate p))
   \<and> (readFile w p = Inr f \<and> parseHTML w f = Inr doc \<and> TrimSpace (firstText (docFind sel_pageHeader doc)) \<noteq> []
        \<and> parseAppleDate (TrimSpace (firstText (docFind sel_pageHeader doc))) = Inl x \<longrightarrow>
        outcome (processEntryHTML w p r tz n) = Inl (ErrDateUnparsed p))
   \<and> (readFile w p = Inr f \<and> parseHTML w f = Inr doc \<and> TrimSpace (firstText (docFind sel_pageHeader doc)) \<noteq> []
        \<and> parseAppleDate (TrimSpace (firstText (docFind sel_pageHeader doc))) = Inr t \<and> extractTitle doc p = []
        \<and> TrimSpace (bodyMarkdownBuilder (walkBody w p (formatRFC3339 t) doc (initLoopState (Suc n)))) = []
        \<and> entryPhotos (walkBody w p (formatRFC3339 t) doc (initLoopState (Suc n))) = [] \<longrightarrow>
        outcome (processEntryHTML w p r tz n) = Inl (ErrEmptyEntry p))
   \<and> (currentPContent ls \<noteq> [] \<and> convertString w (currentPContent ls) = Inl ce \<longrightarrow>
        convertAndAppendP w p ls = ls\<lparr>currentPContent := [], logs := logs ls @ [LogConvertError p]\<rparr>)
   \<and> (Attr ''src'' (snd imgSel) = None \<or> Attr ''src'' (snd imgSel) = Some [] \<longrightarrow>
        processImage w p cd imgSel ls = ls)
   \<and> (Attr ''src'' (snd imgSel) = Some src \<and> src \<noteq> []
        \<and> (ToLower w (filepath_Ext (filepath_Base (filepath_Clean (filepath_Join [filepath_Dir p, src])))))
            \<notin> set imageExts \<longrightarrow>
        processImage w p cd imgSel ls
          = ls\<lparr>logs := logs ls @ [LogNonImage (ToLower w (filepath_Ext (filepath_Base (filepath_Clean (filepath_Join [filepath_Dir p, src]))))) p]\<rparr>)
   \<and> (Attr ''src'' (snd imgSel) = Some src \<and> src \<noteq> []
        \<and> (ToLower w (filepath_Ext (filepath_Base (filepath_Clean (filepath_Join [filepath_Dir p, src])))))
            \<in> set imageExts
        \<and> osStat w (filepath_Clean (filepath_Join [filepath_Dir p, src])) = StatNotExist \<longrightarrow>
        processImage w p cd imgSel ls
          = ls\<lparr>logs := logs ls @ [LogImageNotFound (filepath_Clean (filepath_Join [filepath_Dir p, src])) p]\<rparr>)
   \<and> (Attr ''src'' (snd imgSel) = Some src \<and> src \<noteq> []
        \<and> (ToLower w (filepath_Ext (filepath_Base (filepath_Clean (filepath_Join [filepath_Dir p, src])))))
            \<in> set imageExts
        \<and> osStat w (filepath_Clean (filepath_Join [filepath_Dir p, src])) \<noteq> StatNotExist
        \<and> calculateMD5 w (filepath_Clean (filepath_Join [filepath_Dir p, src])) = Inl x \<longrightarrow>
        processImage w p cd imgSel ls
          = ls\<lparr>uuidCalls := Suc (uuidCalls ls),
               logs := logs ls @ [LogMD5Failed (filepath_Clean (filepath_Join [filepath_Dir p, src]))]\<rparr>)
   \<and> (zipCreate w dst = Some x \<longrightarrow>
        copyMedia w ((orig, dst) # media) = LogZipCreateMedia dst # copyMedia w media)
   \<and> (zipCreate w dst = None \<and> readFile w orig = Inl x \<longrightarrow>
        copyMedia w ((orig, dst) # media) = LogZipOpenMedia orig # copyMedia w media)
   \<and> (zipCreate w dst = None \<and> readFile w orig = Inr bytes \<and> ioCopy w dst = Some x \<longrightarrow>
        copyMedia w ((orig, dst) # media) = LogZipCopyMedia orig # copyMedia w media)
   \<and> (osCreate w out = None \<and> zipCreate w ''Journal.json'' = None
        \<and> jsonMarshalIndent w j = Inr d \<and> zipWrite w d = None \<longrightarrow>
        createDayOneZip w out j media tmp = (None, copyMedia w media))"
  by (intro conjI main_completed_iff unit_doc unit_open unit_parse unit_nodate unit_baddate unit_empty unit_conv unit_nosrc unit_fmt unit_missing unit_md5 unit_zc unit_zo unit_zy unit_zip)

lemma dateonly_walk: "walkBody w p cd docDateOnly (initLoopState n) = initLoopState n"
  by (simp add: walkBody_def docDateOnly_def page_def headerDiv_def docFind_def Children_def
      sel_pageContainer_def sel_pageHeader_def hasClass_def isHTMLSpace_def processChild_def
      convertAndAppendP_def initLoopState_def)

lemma fail_world_simps:
  "mkdirTemp failWorld = Inr ''/t''" "walkDir failWorld x = sampleItems"
  "osCreate failWorld x = None" "jsonMarshalIndent failWorld j = Inr ''{}''"
  "zipWrite failWorld x = None" "convertString failWorld s = Inl ErrConvert"
  "md5hex failWorld s = ''d41d8cd9''"
  by (simp_all add: failWorld_def sampleWorld_def)

lemma fail_world_files:
  "readFile failWorld ''/t/Entries/u.html'' = Inl (ErrIO ''unreadable'')"
  "readFile failWorld ''/t/Resources/U.png'' = Inl (ErrIO ''unreadable'')"
  "readFile failWorld ''/t/Entries/x.html'' = Inr ''/t/Entries/x.html''"
  "readFile failWorld ''/t/Entries/n.html'' = Inr ''/t/Entries/n.html''"
  "readFile failWorld ''/t/Entries/g.html'' = Inr ''/t/Entries/g.html''"
  "readFile failWorld ''/t/Entries/c.html'' = Inr ''/t/Entries/c.html''"
  "readFile failWorld ''/t/Resources/A.PNG'' = Inr ''/t/Resources/A.PNG''"
  "parseHTML failWorld ''/t/Entries/x.html'' = Inl (ErrIO ''bad html'')"
  "parseHTML failWorld ''/t/Entries/n.html'' = Inr docNoDate"
  "parseHTML failWorld ''/t/Entries/g.html'' = Inr docGarbage"
  "parseHTML failWorld ''/t/Entries/c.html'' = Inr docDateOnly"
  "osStat failWorld ''/t/Entries'' = StatOK"
  "osStat failWorld ''/t/Resources/M.png'' = StatNotExist"
  "osStat failWorld ''/t/Resources/U.png'' = StatOK"
  "zipCreate failWorld ''Journal.json'' = None"
  "zipCreate failWorld ''photos/1.png'' = Some (ErrIO ''zip'')"
  "zipCreate failWorld ''photos/2.png'' = None"
  "zipCreate failWorld ''photos/3.png'' = None"
  "ioCopy failWorld ''photos/3.png'' = Some (ErrIO ''copy'')"
  by (simp_all add: failWorld_def sampleWorld_def)

lemma fail_unzip: "unzip failWorld ''in.zip'' ''/t'' = None"
  by code_simp

lemma fail_paths: "detectPaths failWorld ''/t'' = (''/t/Entries'', ''/t/Resources'')"
  by code_simp

lemma fail_g:
  "processEntryHTML failWorld ''/t/Entries/g.html'' ''/t/Resources'' ''UTC'' 5 =
     \<lparr>outcome = Inl (ErrDateUnparsed ''/t/Entries/g.html''), uuidsDrawn = 6,
      procLogs = [LogDateUnparsed ''garbage text'' ''/t/Entries/g.html'']\<rparr>"
  by code_simp

lemma fail_name: "isHTMLName failWorld ''g.html''"
  by code_simp

lemma sample_g_header:
  "TrimSpace (firstText (docFind sel_pageHeader docGarbage)) = ''garbage text''"
  by code_simp

lemma sample_g_date: "parseAppleDate ''garbage text'' = Inl (ErrDateUnparsed ''garbage text'')"
  by code_simp

lemma sample_n_header: "TrimSpace (firstText (docFind sel_pageHeader docNoDate)) = []"
  by code_simp

lemma fail_resolved:
  "filepath_Clean (filepath_Join [filepath_Dir ''/t/Entries/a.html'', ''../Resources/B.mov''])
     = ''/t/Resources/B.mov''"
  "filepath_Clean (filepath_Join [filepath_Dir ''/t/Entries/a.html'', ''../Resources/M.png''])
     = ''/t/Resources/M.png''"
  "filepath_Clean (filepath_Join [filepath_Dir ''/t/Entries/a.html'', ''../Resources/U.png''])
     = ''/t/Resources/U.png''"
  by code_simp+

lemma fail_ext:
  "ToLower failWorld (filepath_Ext (filepath_Base ''/t/Resources/B.mov'')) = ''.mov''"
  "ToLower failWorld (filepath_Ext (filepath_Base ''/t/Resources/M.png'')) = ''.png''"
  "ToLower failWorld (filepath_Ext (filepath_Base ''/t/Resources/U.png'')) = ''.png''"
  by code_simp+

theorem run_completes_unless_fatal_witness:
  "''in.zip'' \<noteq> [] \<and> ''out.zip'' \<noteq> []
   \<and> mkdirTemp failWorld = Inr ''/t''
   \<and> unzip failWorld ''in.zip'' ''/t'' = None
   \<and> osStat failWorld (fst (detectPaths failWorld ''/t'')) \<noteq> StatNotExist
   \<and> map wErr (walkDir failWorld (fst (detectPaths failWorld ''/t''))) = [None, None, None, None, None]
   \<and> osCreate failWorld ''out.zip'' = None
   \<and> zipCreate failWorld ''Journal.json'' = None
   \<and> (\<exists>j media lg. main failWorld ''in.zip'' ''out.zip'' ''UTC'' = Completed j media lg)
   \<and> isHTMLName failWorld ''g.html''
   \<and> outcome (processEntryHTML failWorld ''/t/Entries/g.html'' ''/t/Resources'' ''UTC'' (runUUIDs sampleState5))
       = Inl (ErrDateUnparsed ''/t/Entries/g.html'')
   \<and> walkFn failWorld ''/t/Resources'' ''UTC'' \<lparr>wPath = ''/t/Entries/g.html'', wName = ''g.html'', wIsDir = False, wErr = None\<rparr> sampleState5
       = (None, sampleState5\<lparr>runUUIDs := 6,
            runLogs := [LogDateUnparsed ''garbage text'' ''/t/Entries/g.html'',
                        LogEntrySkipped ''/t/Entries/g.html'' (ErrDateUnparsed ''/t/Entries/g.html'')]\<rparr>)
   \<and> walkItems failWorld ''/t/Resources'' ''UTC'' [\<lparr>wPath = ''/t/Entries/g.html'', wName = ''g.html'', wIsDir = False, wErr = None\<rparr>] sampleState5
       = (None, sampleState5\<lparr>runUUIDs := 6,
            runLogs := [LogDateUnparsed ''garbage text'' ''/t/Entries/g.html'',
                        LogEntrySkipped ''/t/Entries/g.html'' (ErrDateUnparsed ''/t/Entries/g.html'')]\<rparr>)
   \<and> readFile failWorld ''/t/Entries/u.html'' = Inl (ErrIO ''unreadable'')
   \<and> outcome (processEntryHTML failWorld ''/t/Entries/u.html'' ''/t/Resources'' ''UTC'' 0)
       = Inl (ErrOpenHTML ''/t/Entries/u.html'')
   \<and> parseHTML failWorld ''/t/Entries/x.html'' = Inl (ErrIO ''bad html'')
   \<and> outcome (processEntryHTML failWorld ''/t/Entries/x.html'' ''/t/Resources'' ''UTC'' 0)
       = Inl (ErrParseHTML ''/t/Entries/x.html'')
   \<and> parseHTML failWorld ''/t/Entries/n.html'' = Inr docNoDate
   \<and> TrimSpace (firstText (docFind sel_pageHeader docNoDate)) = []
   \<and> outcome (processEntryHTML failWorld ''/t/Entries/n.html'' ''/t/Resources'' ''UTC'' 0)
       = Inl (ErrNoDate ''/t/Entries/n.html'')
   \<and> parseHTML failWorld ''/t/Entries/g.html'' = Inr docGarbage
   \<and> parseAppleDate (TrimSpace (firstText (docFind sel_pageHeader docGarbage)))
       = Inl (ErrDateUnparsed ''garbage text'')
   \<and> outcome (processEntryHTML failWorld ''/t/Entries/g.html'' ''/t/Resources'' ''UTC'' 0)
       = Inl (ErrDateUnparsed ''/t/Entries/g.html'')
   \<and> parseHTML failWorld ''/t/Entries/c.html'' = Inr docDateOnly
   \<and> extractTitle docDateOnly ''/t/Entries/c.html'' = []
   \<and> outcome (processEntryHTML failWorld ''/t/Entries/c.html'' ''/t/Resources'' ''UTC'' 0)
       = Inl (ErrEmptyEntry ''/t/Entries/c.html'')
   \<and> convertString failWorld ''<p>Hi</p>'' = Inl ErrConvert
   \<and> convertAndAppendP failWorld ''/t/Entries/a.html'' ((initLoopState 1)\<lparr>currentPContent := ''<p>Hi</p>''\<rparr>)
       = (initLoopState 1)\<lparr>logs := [LogConvertError ''/t/Entries/a.html'']\<rparr>
   \<and> Attr ''src'' (Element ''img'' [(''class'', ''asset_image'')] []) = None
   \<and> processImage failWorld ''/t/Entries/a.html'' ''2025-05-14T12:00:00Z'' ([], Element ''img'' [(''class'', ''asset_image'')] [])
        (initLoopState 1) = initLoopState 1
   \<and> ''.mov'' \<notin> set imageExts
   \<and> processImage failWorld ''/t/Entries/a.html'' ''2025-05-14T12:00:00Z'' ([], Element ''img'' [(''class'', ''asset_image''), (''src'', ''../Resources/B.mov'')] []) (initLoopState 1)
       = (initLoopState 1)\<lparr>logs := [LogNonImage ''.mov'' ''/t/Entries/a.html'']\<rparr>
   \<and> ''.png'' \<in> set imageExts
   \<and> osStat failWorld ''/t/Resources/M.png'' = StatNotExist
   \<and> processImage failWorld ''/t/Entries/a.html'' ''2025-05-14T12:00:00Z'' ([], Element ''img'' [(''class'', ''asset_image''), (''src'', ''../Resources/M.png'')] []) (initLoopState 1)
       = (initLoopState 1)\<lparr>logs := [LogImageNotFound ''/t/Resources/M.png'' ''/t/Entries/a.html'']\<rparr>
   \<and> osStat failWorld ''/t/Resources/U.png'' \<noteq> StatNotExist
   \<and> calculateMD5 failWorld ''/t/Resources/U.png'' = Inl (ErrIO ''unreadable'')
   \<and> processImage failWorld ''/t/Entries/a.html'' ''2025-05-14T12:00:00Z'' ([], Element ''img'' [(''class'', ''asset_image''), (''src'', ''../Resources/U.png'')] []) (initLoopState 1)
       = (initLoopState 1)\<lparr>uuidCalls := 2, logs := [LogMD5Failed ''/t/Resources/U.png'']\<rparr>
   \<and> zipCreate failWorld ''photos/1.png'' = Some (ErrIO ''zip'')
   \<and> copyMedia failWorld [(''/t/Resources/A.PNG'', ''photos/1.png'')] = [LogZipCreateMedia ''photos/1.png'']
   \<and> readFile failWorld ''/t/Resources/U.png'' = Inl (ErrIO ''unreadable'')
   \<and> copyMedia failWorld [(''/t/Resources/U.png'', ''photos/2.png'')] = [LogZipOpenMedia ''/t/Resources/U.png'']
   \<and> ioCopy failWorld ''photos/3.png'' = Some (ErrIO ''copy'')
   \<and> copyMedia failWorld [(''/t/Resources/A.PNG'', ''photos/3.png'')] = [LogZipCopyMedia ''/t/Resources/A.PNG'']
   \<and> createDayOneZip failWorld ''out.zip'' \<lparr>Metadata = [], Entries = []\<rparr>
        [(''/t/Resources/A.PNG'', ''photos/1.png'')] ''/t''
       = (None, [LogZipCreateMedia ''photos/1.png''])"
proof -
  let ?W = failWorld
  let ?pa = "''/t/Entries/a.html''"
  let ?cd = "''2025-05-14T12:00:00Z''"
  let ?g = "''/t/Entries/g.html''"
  let ?item = "\<lparr>wPath = ''/t/Entries/g.html'', wName = ''g.html'', wIsDir = False, wErr = None\<rparr>"
  let ?t3 = "\<lparr>Year = 2025, Month = 5, Day = 16, Hour = 12, Minute = 0, Second = 0, Nanosecond = 0, Loc = UTC\<rparr>"
  note fs = fail_world_simps fail_world_files
  have a0: "''in.zip'' \<noteq> [] \<and> ''out.zip'' \<noteq> []" by simp
  have a1: "osStat ?W (fst (detectPaths ?W ''/t'')) \<noteq> StatNotExist"
    by (simp add: fail_paths fs)
  have a2: "map wErr (walkDir ?W (fst (detectPaths ?W ''/t''))) = [None, None, None, None, None]"
    by (simp add: fs sampleItems_def)
  have h0: "''in.zip'' \<noteq> [] \<and> ''out.zip'' \<noteq> []
     \<and> (\<exists>tmp. mkdirTemp ?W = Inr tmp \<and> unzip ?W ''in.zip'' tmp = None
           \<and> osStat ?W (fst (detectPaths ?W tmp)) \<noteq> StatNotExist
           \<and> (\<forall>item \<in> set (walkDir ?W (fst (detectPaths ?W tmp))). wErr item = None)
           \<and> osCreate ?W ''out.zip'' = None \<and> zipCreate ?W ''Journal.json'' = None
           \<and> (\<exists>d. jsonMarshalIndent ?W
                      (dayOneJournal (snd (walkItems ?W (snd (detectPaths ?W tmp)) ''UTC''
                         (walkDir ?W (fst (detectPaths ?W tmp)))
                         (initRunState ?W (snd (detectPaths ?W tmp)))))) = Inr d
                  \<and> zipWrite ?W d = None))"
    by (simp add: fs fail_unzip fail_paths sampleItems_def)
  have c0: "\<exists>j media lg. main ?W ''in.zip'' ''out.zip'' ''UTC'' = Completed j media lg"
    by (rule run_completes_unless_fatal [THEN conjunct1, THEN iffD2]) (rule h0)
  have n5: "runUUIDs sampleState5 = 5" by (simp add: sampleState5_def)
  have d1: "outcome (processEntryHTML ?W ?g ''/t/Resources'' ''UTC'' (runUUIDs sampleState5))
       = Inl (ErrDateUnparsed ?g)"
    by (simp only: n5 fail_g procResult.select_convs)
  note c1 = run_completes_unless_fatal [THEN conjunct2, THEN conjunct1, rule_format, OF conjI [OF fail_name d1],
      where items = "[]"]
  have c1a: "walkFn ?W ''/t/Resources'' ''UTC'' ?item sampleState5
       = (None, sampleState5\<lparr>runUUIDs := 6,
            runLogs := [LogDateUnparsed ''garbage text'' ?g,
                        LogEntrySkipped ?g (ErrDateUnparsed ?g)]\<rparr>)"
    using c1 [THEN conjunct1] unfolding n5 fail_g procResult.select_convs
    by (simp add: sampleState5_def)
  have c1b: "walkItems ?W ''/t/Resources'' ''UTC'' [?item] sampleState5
       = (None, sampleState5\<lparr>runUUIDs := 6,
            runLogs := [LogDateUnparsed ''garbage text'' ?g,
                        LogEntrySkipped ?g (ErrDateUnparsed ?g)]\<rparr>)"
    using c1 [THEN conjunct2] unfolding n5 fail_g procResult.select_convs
    by (simp add: sampleState5_def)
  note c2 = run_completes_unless_fatal [THEN conjunct2, THEN conjunct2, THEN conjunct1, rule_format, OF fs(8),
      where r = "''/t/Resources''" and tz = "''UTC''" and n = 0]
  note c3 = run_completes_unless_fatal [THEN conjunct2, THEN conjunct2, THEN conjunct2, THEN conjunct1, rule_format, OF conjI [OF fs(10) fs(15)],
      where r = "''/t/Resources''" and tz = "''UTC''" and n = 0]
  note c4 = run_completes_unless_fatal [THEN conjunct2, THEN conjunct2, THEN conjunct2, THEN conjunct2, THEN conjunct1, rule_format,
      OF conjI [OF fs(11) conjI [OF fs(16) sample_n_header]],
      where r = "''/t/Resources''" and tz = "''UTC''" and n = 0]
  have g1: "TrimSpace (firstText (docFind sel_pageHeader docGarbage)) \<noteq> []" unfolding sample_g_header by simp
  have g2: "parseAppleDate (TrimSpace (firstText (docFind sel_pageHeader docGarbage))) = Inl (ErrDateUnparsed ''garbage text'')"
    unfolding sample_g_header by (rule sample_g_date)
  note c5 = run_completes_unless_fatal [THEN conjunct2, THEN conjunct2, THEN conjunct2, THEN conjunct2, THEN conjunct2, THEN conjunct1, rule_format,
      OF conjI [OF fs(12) conjI [OF fs(17) conjI [OF g1 g2]]],
      where r = "''/t/Resources''" and tz = "''UTC''" and n = 0]
  have e1: "TrimSpace (firstText (docFind sel_pageHeader docDateOnly)) \<noteq> []" unfolding sample_c_header by simp
  have e2: "parseAppleDate (TrimSpace (firstText (docFind sel_pageHeader docDateOnly))) = Inr ?t3"
    unfolding sample_c_header by (rule sample_c_date)
  have e3: "TrimSpace (bodyMarkdownBuilder (walkBody ?W ''/t/Entries/c.html'' (formatRFC3339 ?t3)
              docDateOnly (initLoopState (Suc 0)))) = []"
    and e4: "entryPhotos (walkBody ?W ''/t/Entries/c.html'' (formatRFC3339 ?t3)
              docDateOnly (initLoopState (Suc 0))) = []"
    by (simp_all only: dateonly_walk) (simp_all add: initLoopState_def TrimSpace_Nil)
  note c6 = run_completes_unless_fatal [THEN conjunct2, THEN conjunct2, THEN conjunct2, THEN conjunct2, THEN conjunct2, THEN conjunct2, THEN conjunct1, rule_format,
      OF conjI [OF fs(13) conjI [OF fs(18) conjI [OF e1 conjI [OF e2 conjI [OF sample_c_title
        conjI [OF e3 e4]]]]]],
      where r = "''/t/Resources''" and tz = "''UTC''"]
  let ?ls = "(initLoopState 1)\<lparr>currentPContent := ''<p>Hi</p>''\<rparr>"
  have v1: "currentPContent ?ls \<noteq> [] \<and> convertString ?W (currentPContent ?ls) = Inl ErrConvert"
    by (simp add: fs)
  have c7: "convertAndAppendP ?W ?pa ?ls = (initLoopState 1)\<lparr>logs := [LogConvertError ?pa]\<rparr>"
    using run_completes_unless_fatal [THEN conjunct2, THEN conjunct2, THEN conjunct2, THEN conjunct2, THEN conjunct2, THEN conjunct2, THEN conjunct2, THEN conjunct1, rule_format, OF v1, where p = ?pa]
    by (simp add: initLoopState_def)
  let ?i0 = "([] :: node list, Element ''img'' [(''class'', ''asset_image'')] [])"
  have s0: "Attr ''src'' (Element ''img'' [(''class'', ''asset_image'')] []) = None" by simp
  have s1: "Attr ''src'' (snd ?i0) = None \<or> Attr ''src'' (snd ?i0) = Some []" by simp
  note c8 = run_completes_unless_fatal [THEN conjunct2, THEN conjunct2, THEN conjunct2, THEN conjunct2, THEN conjunct2, THEN conjunct2, THEN conjunct2, THEN conjunct2, THEN conjunct1, rule_format, OF s1,
      where w = ?W and p = ?pa and cd = ?cd and ls = "initLoopState 1"]
  let ?ib = "([] :: node list, Element ''img'' [(''class'', ''asset_image''), (''src'', ''../Resources/B.mov'')] [])"
  let ?im = "([] :: node list, Element ''img'' [(''class'', ''asset_image''), (''src'', ''../Resources/M.png'')] [])"
  let ?iu = "([] :: node list, Element ''img'' [(''class'', ''asset_image''), (''src'', ''../Resources/U.png'')] [])"
  have x1: "''.mov'' \<notin> set imageExts" and x2: "''.png'' \<in> set imageExts"
    by (simp_all add: imageExts_def)
  have f1: "Attr ''src'' (snd ?ib) = Some ''../Resources/B.mov'' \<and> ''../Resources/B.mov'' \<noteq> []
      \<and> (ToLower failWorld (filepath_Ext (filepath_Base (filepath_Clean (filepath_Join [filepath_Dir ''/t/Entries/a.html'', ''../Resources/B.mov'']))))) \<notin> set imageExts"
    unfolding fail_resolved fail_ext using x1 by simp
  have c9: "processImage ?W ?pa ?cd ?ib (initLoopState 1)
       = (initLoopState 1)\<lparr>logs := [LogNonImage ''.mov'' ?pa]\<rparr>"
    using run_completes_unless_fatal [THEN conjunct2, THEN conjunct2, THEN conjunct2, THEN conjunct2, THEN conjunct2, THEN conjunct2, THEN conjunct2, THEN conjunct2, THEN conjunct2, THEN conjunct1, rule_format, OF f1,
      where cd = ?cd and ls = "initLoopState 1"]
    unfolding fail_resolved fail_ext by (simp add: initLoopState_def)
  have m1: "Attr ''src'' (snd ?im) = Some ''../Resources/M.png'' \<and> ''../Resources/M.png'' \<noteq> []
      \<and> (ToLower failWorld (filepath_Ext (filepath_Base (filepath_Clean (filepath_Join [filepath_Dir ''/t/Entries/a.html'', ''../Resources/M.png'']))))) \<in> set imageExts
      \<and> osStat ?W (filepath_Clean (filepath_Join [filepath_Dir ''/t/Entries/a.html'', ''../Resources/M.png''])) = StatNotExist"
    unfolding fail_resolved fail_ext using x2 by (simp add: fs)
  have c10: "processImage ?W ?pa ?cd ?im (initLoopState 1)
       = (initLoopState 1)\<lparr>logs := [LogImageNotFound ''/t/Resources/M.png'' ?pa]\<rparr>"
    using run_completes_unless_fatal [THEN conjunct2, THEN conjunct2, THEN conjunct2, THEN conjunct2, THEN conjunct2, THEN conjunct2, THEN conjunct2, THEN conjunct2, THEN conjunct2, THEN conjunct2, THEN conjunct1, rule_format, OF m1,
      where cd = ?cd and ls = "initLoopState 1"]
    unfolding fail_resolved fail_ext by (simp add: initLoopState_def)
  have u0: "calculateMD5 ?W ''/t/Resources/U.png'' = Inl (ErrIO ''unreadable'')"
    by (simp add: calculateMD5_def fs)
  have u1: "Attr ''src'' (snd ?iu) = Some ''../Resources/U.png'' \<and> ''../Resources/U.png'' \<noteq> []
      \<and> (ToLower failWorld (filepath_Ext (filepath_Base (filepath_Clean (filepath_Join [filepath_Dir ''/t/Entries/a.html'', ''../Resources/U.png'']))))) \<in> set imageExts
      \<and> osStat ?W (filepath_Clean (filepath_Join [filepath_Dir ''/t/Entries/a.html'', ''../Resources/U.png''])) \<noteq> StatNotExist
      \<and> calculateMD5 ?W (filepath_Clean (filepath_Join [filepath_Dir ''/t/Entries/a.html'', ''../Resources/U.png''])) = Inl (ErrIO ''unreadable'')"
    unfolding fail_resolved fail_ext using x2 u0 by (simp add: fs)
  have c11: "processImage ?W ?pa ?cd ?iu (initLoopState 1)
       = (initLoopState 1)\<lparr>uuidCalls := 2, logs := [LogMD5Failed ''/t/Resources/U.png'']\<rparr>"
    using run_completes_unless_fatal [THEN conjunct2, THEN conjunct2, THEN conjunct2, THEN conjunct2, THEN conjunct2, THEN conjunct2, THEN conjunct2, THEN conjunct2, THEN conjunct2, THEN conjunct2, THEN conjunct2, THEN conjunct1, rule_format, OF u1,
      where cd = ?cd and ls = "initLoopState 1"]
    unfolding fail_resolved fail_ext by (simp add: initLoopState_def)
  have c12: "copyMedia ?W [(''/t/Resources/A.PNG'', ''photos/1.png'')] = [LogZipCreateMedia ''photos/1.png'']"
    using run_completes_unless_fatal [THEN conjunct2, THEN conjunct2, THEN conjunct2, THEN conjunct2, THEN conjunct2, THEN conjunct2, THEN conjunct2, THEN conjunct2, THEN conjunct2, THEN conjunct2, THEN conjunct2, THEN conjunct2, THEN conjunct1, rule_format, OF fs(23),
      where orig = "''/t/Resources/A.PNG''" and media = "[]"]
    by simp
  have c13: "copyMedia ?W [(''/t/Resources/U.png'', ''photos/2.png'')] = [LogZipOpenMedia ''/t/Resources/U.png'']"
    using run_completes_unless_fatal [THEN conjunct2, THEN conjunct2, THEN conjunct2, THEN conjunct2, THEN conjunct2, THEN conjunct2, THEN conjunct2, THEN conjunct2, THEN conjunct2, THEN conjunct2, THEN conjunct2, THEN conjunct2, THEN conjunct2, THEN conjunct1, rule_format, OF conjI [OF fs(24) fs(9)],
      where media = "[]"]
    by simp
  have c14: "copyMedia ?W [(''/t/Resources/A.PNG'', ''photos/3.png'')] = [LogZipCopyMedia ''/t/Resources/A.PNG'']"
    using run_completes_unless_fatal [THEN conjunct2, THEN conjunct2, THEN conjunct2, THEN conjunct2, THEN conjunct2, THEN conjunct2, THEN conjunct2, THEN conjunct2, THEN conjunct2, THEN conjunct2, THEN conjunct2, THEN conjunct2, THEN conjunct2, THEN conjunct2, THEN conjunct1, rule_format,
      OF conjI [OF fs(25) conjI [OF fs(14) fs(26)]], where media = "[]"]
    by simp
  have z1: "osCreate ?W ''out.zip'' = None \<and> zipCreate ?W ''Journal.json'' = None
      \<and> jsonMarshalIndent ?W \<lparr>Metadata = [], Entries = []\<rparr> = Inr ''{}'' \<and> zipWrite ?W ''{}'' = None"
    by (simp add: fs)
  have c15: "createDayOneZip ?W ''out.zip'' \<lparr>Metadata = [], Entries = []\<rparr>
        [(''/t/Resources/A.PNG'', ''photos/1.png'')] ''/t'' = (None, [LogZipCreateMedia ''photos/1.png''])"
    using run_completes_unless_fatal [THEN conjunct2, THEN conjunct2, THEN conjunct2, THEN conjunct2, THEN conjunct2, THEN conjunct2, THEN conjunct2, THEN conjunct2, THEN conjunct2, THEN conjunct2, THEN conjunct2, THEN conjunct2, THEN conjunct2, THEN conjunct2, THEN conjunct2, rule_format, OF z1,
      where media = "[(''/t/Resources/A.PNG'', ''photos/1.png'')]" and tmp = "''/t''"]
    unfolding c12 .
  have a0a: "''in.zip'' \<noteq> []" and a0b: "''out.zip'' \<noteq> []" by simp_all
  have u2: "osStat ?W ''/t/Resources/U.png'' \<noteq> StatNotExist" by (simp add: fs)
  have v0: "convertString ?W ''<p>Hi</p>'' = Inl ErrConvert" by (rule fs(6))
  have o1: "osCreate ?W ''out.zip'' = None" by (rule fs(3))
  from a0a a0b fs(1) fail_unzip a1 a2 o1 fs(22) c0 fail_name d1 c1a c1b fs(8) c2 fs(15) c3 fs(16)
    sample_n_header c4 fs(17) g2 c5 fs(18) sample_c_title c6 v0 c7 s0 c8 x1 c9 x2 fs(20) c10
    u2 u0 c11 fs(23) c12 fs(9) c13 fs(26) c14 c15
  show ?thesis by (intro conjI)
qed

lemma walk_err_world_simps:
  "mkdirTemp walkErrWorld = Inr ''/t''" "osStat walkErrWorld x = StatOK"
  "osCreate walkErrWorld x = None" "zipCreate walkErrWorld x = None"
  "jsonMarshalIndent walkErrWorld j = Inr ''{}''" "zipWrite walkErrWorld x = None"
  "walkDir walkErrWorld x = [\<lparr>wPath = ''/t/Entries/x'', wName = ''x'', wIsDir = True,
                              wErr = Some (ErrIO ''permission denied'')\<rparr>]"
  by (simp_all add: walkErrWorld_def sampleWorld_def)

lemma walk_err_unzip: "unzip walkErrWorld ''in.zip'' ''/t'' = None"
  by code_simp

lemma walk_err_paths: "detectPaths walkErrWorld ''/t'' = (''/t/Entries'', ''/t/Resources'')"
  by code_simp

theorem run_aborts_on_walk_error_counterexample:
  "unzip walkErrWorld ''in.zip'' ''/t'' = None
   \<and> osStat walkErrWorld (fst (detectPaths walkErrWorld ''/t'')) = StatOK
   \<and> fst (createDayOneZip walkErrWorld ''out.zip''
            \<lparr>Metadata = [(''version'', ''1.0'')], Entries = []\<rparr> [] ''/t'') = None
   \<and> main walkErrWorld ''in.zip'' ''out.zip'' ''UTC'' = Aborted FatalWalk
   \<and> Attr ''src'' (Element ''img'' [(''class'', ''asset_image'')] []) = None
   \<and> logs (processImage walkErrWorld ''/t/Entries/a.html'' ''2025-05-14T12:00:00Z''
        ([], Element ''img'' [(''class'', ''asset_image'')] []) (initLoopState 1)) = []"
  by (simp add: main_def walk_err_world_simps walk_err_unzip walk_err_paths walkFn_def
      createDayOneZip_def processImage_def initLoopState_def)

section \<open>Identifiers and destination paths\<close>

lemma of_char_div_16: "of_char (c :: char) div 16 < (16 :: nat)"
proof -
  have "(of_char c :: nat) mod 256 < 256" by simp
  then have "(of_char c :: nat) < 16 * 16" by (simp only: of_char_mod_256)
  then show ?thesis by (simp only: div_less_iff_less_mult zero_less_numeral)
qed

lemma hexByte_chars: "set (hexByte b) \<subseteq> set ''0123456789abcdef''"
proof -
  have "''0123456789abcdef'' ! k \<in> set ''0123456789abcdef''" if "k < 16" for k
    using that by (intro nth_mem) simp
  from this [OF of_char_div_16 [of b]] this [of "of_char b mod 16"]
  show ?thesis by (simp add: hexByte_def)
qed

lemma hexBytes_chars: "set (concat (map hexByte bs)) \<subseteq> set ''0123456789abcdef''"
proof
  fix c
  assume "c \<in> set (concat (map hexByte bs))"
  then obtain b where "c \<in> set (hexByte b)" by auto
  with hexByte_chars [of b] show "c \<in> set ''0123456789abcdef''" by (rule_tac subsetD)
qed

lemma uuid_String_chars: "set (uuid_String u) \<subseteq> set ''0123456789abcdef-''"
proof -
  have p: "set (concat (map hexByte bs)) \<subseteq> set ''0123456789abcdef-''" for bs
    by (rule order_trans [OF hexBytes_chars]) simp
  have d: "set ''-'' \<subseteq> set ''0123456789abcdef-''"
    by simp
  show ?thesis
    unfolding uuid_String_def set_append Un_subset_iff by (intro conjI p d)
qed

lemma upperChar_hex_all:
  "\<forall>c \<in> set ''0123456789abcdef-''. upperChar c \<in> set ''0123456789ABCDEF-''"
  by code_simp

lemma upperChar_hex:
  assumes "c \<in> set ''0123456789abcdef-''"
  shows "upperChar c \<in> set ''0123456789ABCDEF-''"
  using upperChar_hex_all assms by (rule bspec)

lemma set_ReplaceAll_Nil: "set (ReplaceAll s c []) = set s - {c}"
  by (induction s) (auto simp: ReplaceAll_def)

lemma hex_ascii_all: "\<forall>c \<in> set ''0123456789abcdef-''. (of_char c :: nat) < 0x80"
  by code_simp

lemma uuid_String_ascii: "isASCII (uuid_String u)"
proof -
  have "(of_char c :: nat) < 0x80" if "c \<in> set (uuid_String u)" for c
  proof -
    from that uuid_String_chars have "c \<in> set ''0123456789abcdef-''" by blast
    with hex_ascii_all show ?thesis by (rule bspec)
  qed
  then show ?thesis by (simp add: isASCII_def list_all_iff)
qed

lemma ToUpper_uuid: "ToUpper w (uuid_String u) = map upperChar (uuid_String u)"
  by (simp add: ToUpper_def uuid_String_ascii)

lemma newDayOneUUID_hex: "set (newDayOneUUID w n) \<subseteq> set ''0123456789ABCDEF''"
proof
  fix c
  assume "c \<in> set (newDayOneUUID w n)"
  then have c: "c \<in> upperChar ` set (uuid_String (uuid_New w n))" "c \<noteq> CHR ''-''"
    by (auto simp: newDayOneUUID_def set_ReplaceAll_Nil ToUpper_uuid)
  then obtain d where d: "d \<in> set (uuid_String (uuid_New w n))" "c = upperChar d"
    by blast
  with uuid_String_chars have "d \<in> set ''0123456789abcdef-''" by blast
  from upperChar_hex [OF this] d c(2) show "c \<in> set ''0123456789ABCDEF''"
    by auto
qed

lemma hex_no_separator:
  assumes "set t \<subseteq> set ''0123456789ABCDEF''"
  shows "CHR ''/'' \<notin> set t" "CHR ''.'' \<notin> set t" "CHR 0x0A \<notin> set t" "CHR ''!'' \<notin> set t"
    "CHR '')'' \<notin> set t"
  using assms by auto

lemma splitOn_none:
  assumes "sep \<notin> set s"
  shows "splitOn sep s = [s]"
  using assms by (induction s) auto

lemma splitOn_first:
  assumes "sep \<notin> set a"
  shows "splitOn sep (a @ sep # b) = a # splitOn sep b"
  using assms by (induction a) auto

lemma filepath_Join_photos:
  assumes "CHR ''/'' \<notin> set name" and "name \<noteq> []" and "name \<noteq> ''.''" and "name \<noteq> ''..''"
  shows "filepath_Join [''photos'', name] = ''photos/'' @ name"
proof -
  have "splitOn (CHR ''/'') (''photos'' @ CHR ''/'' # name) = [''photos'', name]"
    using splitOn_first [of "CHR ''/''" "''photos''" name] splitOn_none [OF assms(1)] by simp
  then have "splitOn (CHR ''/'') (''photos/'' @ name) = [''photos'', name]"
    by simp
  with assms show ?thesis
    by (simp add: filepath_Join_def filepath_Clean_def)
qed

lemma photo_dest:
  assumes "ext \<in> set imageExts"
  shows "filepath_Join [''photos'', newDayOneUUID w n @ ext] = ''photos/'' @ newDayOneUUID w n @ ext"
proof (rule filepath_Join_photos)
  from assms have e: "CHR ''/'' \<notin> set ext" "3 < length ext"
    by (auto simp: imageExts_def)
  from hex_no_separator(1) [OF newDayOneUUID_hex] e(1)
  show "CHR ''/'' \<notin> set (newDayOneUUID w n @ ext)" by simp
  from e(2) show "newDayOneUUID w n @ ext \<noteq> []" by auto
  from e(2) have l: "3 < length (newDayOneUUID w n @ ext)" by simp
  show "newDayOneUUID w n @ ext \<noteq> ''.''"
  proof
    assume "newDayOneUUID w n @ ext = ''.''"
    then have "length (newDayOneUUID w n @ ext) = 1" by simp
    with l show False by simp
  qed
  show "newDayOneUUID w n @ ext \<noteq> ''..''"
  proof
    assume "newDayOneUUID w n @ ext = ''..''"
    then have "length (newDayOneUUID w n @ ext) = 2" by simp
    with l show False by simp
  qed
qed

lemma dest_token_eq:
  assumes "CHR ''.'' \<notin> set t1" "CHR ''.'' \<notin> set t2"
    and "e1 \<in> set imageExts" "e2 \<in> set imageExts"
    and "''photos/'' @ t1 @ e1 = ''photos/'' @ t2 @ e2"
  shows "t1 = t2"
proof -
  have tw: "takeWhile (\<lambda>c. c \<noteq> CHR ''.'') (t @ e) = t"
    if "CHR ''.'' \<notin> set t" "e \<in> set imageExts" for t e
  proof -
    from that(2) obtain r where "e = CHR ''.'' # r" by (auto simp: imageExts_def)
    with that(1) show ?thesis by (induction t) auto
  qed
  from assms(5) have "t1 @ e1 = t2 @ e2" by simp
  then have "takeWhile (\<lambda>c. c \<noteq> CHR ''.'') (t1 @ e1) = takeWhile (\<lambda>c. c \<noteq> CHR ''.'') (t2 @ e2)"
    by simp
  with tw [OF assms(1,3)] tw [OF assms(2,4)] show ?thesis by simp
qed

section \<open>What one step of the body walk changes\<close>

lemma convertAndAppendP_fields:
  "entryPhotos (convertAndAppendP w p st) = entryPhotos st"
  "mediaToCopy (convertAndAppendP w p st) = mediaToCopy st"
  "uuidCalls (convertAndAppendP w p st) = uuidCalls st"
  "currentPContent (convertAndAppendP w p st) = []"
  by (simp_all add: convertAndAppendP_def split: sum.splits)

lemma convertAndAppendP_body:
  "bodyMarkdownBuilder (convertAndAppendP w p st) = bodyMarkdownBuilder st
   \<or> (\<exists>md. convertString w (currentPContent st) = Inr md
         \<and> bodyMarkdownBuilder (convertAndAppendP w p st)
             = bodyMarkdownBuilder st @ TrimSpace md @ blankLine)"
  by (simp add: convertAndAppendP_def split: sum.splits)

lemma writeAndConvert_fields:
  "entryPhotos (writeAndConvert w p html st) = entryPhotos st"
  "mediaToCopy (writeAndConvert w p html st) = mediaToCopy st"
  "uuidCalls (writeAndConvert w p html st) = uuidCalls st"
  "currentPContent (writeAndConvert w p html st) = []"
  by (simp_all add: writeAndConvert_def convertAndAppendP_fields)

lemma processImage_cases:
  "(entryPhotos (processImage w p cd img st) = entryPhotos st
     \<and> mediaToCopy (processImage w p cd img st) = mediaToCopy st
     \<and> bodyMarkdownBuilder (processImage w p cd img st) = bodyMarkdownBuilder st
     \<and> currentPContent (processImage w p cd img st) = currentPContent st
     \<and> uuidCalls st \<le> uuidCalls (processImage w p cd img st))
   \<or> (\<exists>src ext md5. ext \<in> set imageExts
         \<and> entryPhotos (processImage w p cd img st)
             = entryPhotos st @ [\<lparr>MD5 = md5, Type = TrimPrefix ext ''.'',
                  Identifier = newDayOneUUID w (uuidCalls st), PhotoCreationDate = cd\<rparr>]
         \<and> mediaToCopy (processImage w p cd img st)
             = AList.update src (''photos/'' @ newDayOneUUID w (uuidCalls st) @ ext) (mediaToCopy st)
         \<and> bodyMarkdownBuilder (processImage w p cd img st)
             = bodyMarkdownBuilder st @ placeholder (newDayOneUUID w (uuidCalls st)) @ blankLine
         \<and> currentPContent (processImage w p cd img st) = currentPContent st
         \<and> uuidCalls (processImage w p cd img st) = Suc (uuidCalls st))"
proof (cases "Attr ''src'' (snd img)")
  case None
  then show ?thesis by (simp add: processImage_def)
next
  case (Some imgSrc)
  let ?abs = "filepath_Clean (filepath_Join [filepath_Dir p, imgSrc])"
  let ?ext = "ToLower w (filepath_Ext (filepath_Base ?abs))"
  show ?thesis
  proof (cases "imgSrc \<noteq> [] \<and> ?ext \<in> set imageExts \<and> osStat w ?abs \<noteq> StatNotExist")
    case False
    with Some show ?thesis
      by (auto simp: processImage_def Let_def imageExts_def)
  next
    case True
    then have ext: "?ext \<in> set imageExts" by simp
    show ?thesis
    proof (cases "calculateMD5 w ?abs")
      case (Inl e)
      with Some True show ?thesis
        by (auto simp: processImage_def Let_def imageExts_def)
    next
      case (Inr md5)
      with Some True photo_dest [OF ext, of w "uuidCalls st"] have
        "entryPhotos (processImage w p cd img st)
             = entryPhotos st @ [\<lparr>MD5 = md5, Type = TrimPrefix ?ext ''.'',
                  Identifier = newDayOneUUID w (uuidCalls st), PhotoCreationDate = cd\<rparr>]"
        "mediaToCopy (processImage w p cd img st)
             = AList.update ?abs (''photos/'' @ newDayOneUUID w (uuidCalls st) @ ?ext) (mediaToCopy st)"
        "bodyMarkdownBuilder (processImage w p cd img st)
             = bodyMarkdownBuilder st @ placeholder (newDayOneUUID w (uuidCalls st)) @ blankLine"
        "currentPContent (processImage w p cd img st) = currentPContent st"
        "uuidCalls (processImage w p cd img st) = Suc (uuidCalls st)"
        by (auto simp: processImage_def Let_def imageExts_def)
      with ext show ?thesis by blast
    qed
  qed
qed

section \<open>Invariants of the body walk\<close>

lemma fold_mono_measure:
  assumes "\<And>x s. (m s :: nat) \<le> m (f x s)"
  shows "m s \<le> m (fold f xs s)"
proof (induction xs arbitrary: s)
  case Nil
  show ?case by simp
next
  case (Cons x xs)
  from assms [of s x] Cons [of "f x s"] show ?case by simp
qed

lemma fold_bounded_invariant:
  assumes mono: "\<And>x s. (m s :: nat) \<le> m (f x s)"
    and step: "\<And>x s. x \<in> set xs \<Longrightarrow> P s \<Longrightarrow> m (f x s) \<le> N \<Longrightarrow> P (f x s)"
    and "P s" and "m (fold f xs s) \<le> N"
  shows "P (fold f xs s)"
  using step assms(3,4)
proof (induction xs arbitrary: s)
  case Nil
  then show ?case by simp
next
  case (Cons x xs)
  from fold_mono_measure [of m f "f x s" xs, OF mono] Cons.prems(3)
  have b: "m (f x s) \<le> N" by simp
  from Cons.prems(1) [of x s] Cons.prems(2) b have "P (f x s)" by simp
  moreover from Cons.prems(3) have "m (fold f xs (f x s)) \<le> N" by simp
  ultimately have "P (fold f xs (f x s))"
    using Cons.prems(1) by (intro Cons.IH) auto
  then show ?case by simp
qed

lemma processImage_mono: "uuidCalls st \<le> uuidCalls (processImage w p cd img st)"
  using processImage_cases [of w p cd img st] by auto

lemma descs_self: "n \<in> descs n"
  by (cases n) simp_all

lemma descs_trans:
  assumes "m \<in> descs n"
  shows "descs m \<subseteq> descs n"
  using assms
proof (induction n)
  case (Element t ats ch)
  show ?case
  proof (cases "m = Element t ats ch")
    case True
    then show ?thesis by simp
  next
    case False
    with Element.prems obtain c where c: "c \<in> set ch" "m \<in> descs c" by auto
    from Element.IH [OF c] c(1) show ?thesis by auto
  qed
next
  case (TextNode tx)
  then show ?case by simp
qed

lemma subtree_descs: "snd ` set (subtree anc n) = descs n"
proof (induction n arbitrary: anc)
  case (Element t ats ch)
  have "snd ` (\<Union>c \<in> set ch. set (subtree (Element t ats ch # anc) c)) = (\<Union>c \<in> set ch. descs c)"
    using Element.IH by (auto simp: image_UN)
  then show ?case by (simp add: image_Un)
next
  case (TextNode tx)
  show ?case by simp
qed

lemma docFind_descs:
  assumes "s \<in> set (docFind sel doc)"
  shows "snd s \<in> docDescs doc"
proof -
  from assms obtain n where "n \<in> set doc" "s \<in> set (subtree [] n)"
    by (auto simp: docFind_def)
  with subtree_descs [of "[]" n] show ?thesis
    by (auto simp: docDescs_def)
qed

lemma docDescs_closed:
  assumes "m \<in> docDescs doc"
  shows "descs m \<subseteq> docDescs doc"
  using assms descs_trans by (fastforce simp: docDescs_def)

lemma child_descs:
  assumes "c \<in> set (childNodes n)"
  shows "c \<in> descs n"
  using assms descs_self [of c] by (cases n) auto

lemma Children_descs:
  assumes "s \<in> set (Children sels)" and "\<And>x. x \<in> set sels \<Longrightarrow> snd x \<in> docDescs doc"
  shows "snd s \<in> docDescs doc"
proof -
  from assms(1) obtain anc n where x: "(anc, n) \<in> set sels" "snd s \<in> set (childNodes n)"
    by (auto simp: Children_def)
  from assms(2) [OF x(1)] have "n \<in> docDescs doc" by simp
  from docDescs_closed [OF this] child_descs [OF x(2)] show ?thesis by blast
qed

lemma Find_descs:
  assumes "x \<in> set (Find sel s)" and "snd s \<in> docDescs doc"
  shows "snd x \<in> docDescs doc"
proof -
  have "set (tl xs) \<subseteq> set xs" for xs :: "selected list"
    by (cases xs) auto
  with assms(1) have "x \<in> set (subtree (fst s) (snd s))"
    by (auto simp: Find_def)
  then have "snd x \<in> descs (snd s)"
    using subtree_descs [of "fst s" "snd s"] by force
  with docDescs_closed [OF assms(2)] show ?thesis by blast
qed

text \<open>
  An invariant of the state holds after the walk over a document if the four kinds of step
  keep it: converting the pending paragraph, writing the rendering of a node of the
  document (or nothing) and converting it, handling an image, and logging.
\<close>

lemma processChild_invariant:
  assumes "P st" and "uuidCalls (processChild w p cd c st) \<le> N" and "snd c \<in> docDescs doc"
    and conv: "\<And>s. P s \<Longrightarrow> P (convertAndAppendP w p s)"
    and wr: "\<And>s nd html. nd \<in> docDescs doc \<Longrightarrow> outerHtml w nd = Inr html \<or> html = [] \<Longrightarrow> P s
               \<Longrightarrow> P (writeAndConvert w p html s)"
    and img: "\<And>s i. P s \<Longrightarrow> uuidCalls (processImage w p cd i s) \<le> N \<Longrightarrow> P (processImage w p cd i s)"
    and lg: "\<And>s l. P s \<Longrightarrow> P (s\<lparr>logs := logs s @ [l]\<rparr>)"
  shows "P (processChild w p cd c st)"
proof -
  have text_fold: "P (fold (\<lambda>x. writeAndConvert w p (outerHtmlOrEmpty w x)) xs st)"
    if "\<And>x. x \<in> set xs \<Longrightarrow> snd x \<in> docDescs doc" for xs :: "selected list"
  proof (rule fold_invariant [where Q = "\<lambda>x :: selected. snd x \<in> docDescs doc"])
    show "\<And>x. x \<in> set xs \<Longrightarrow> snd x \<in> docDescs doc" by (rule that)
    show "P st" by (rule assms(1))
    fix x :: selected and s'
    assume x: "snd x \<in> docDescs doc" and s': "P s'"
    have "outerHtml w (snd x) = Inr (outerHtmlOrEmpty w x) \<or> outerHtmlOrEmpty w x = []"
      by (simp add: outerHtmlOrEmpty_def split: sum.splits)
    from wr [OF x this s'] show "P (writeAndConvert w p (outerHtmlOrEmpty w x) s')" .
  qed
  show ?thesis
  proof (cases "Is sel_pageHeader c \<or> Is sel_title c")
    case True
    with assms(1) show ?thesis by (auto simp: processChild_def)
  next
    case nohead: False
    show ?thesis
    proof (cases "Is sel_assetGrid c")
      case True
      with nohead have eq: "processChild w p cd c st
          = fold (processImage w p cd) (Find sel_photo_img c) (convertAndAppendP w p st)"
        by (simp add: processChild_def)
      have "P (fold (processImage w p cd) (Find sel_photo_img c) (convertAndAppendP w p st))"
      proof (rule fold_bounded_invariant [where m = uuidCalls and N = N])
        show "\<And>x s. uuidCalls s \<le> uuidCalls (processImage w p cd x s)"
          by (rule processImage_mono)
        show "\<And>x s. x \<in> set (Find sel_photo_img c) \<Longrightarrow> P s \<Longrightarrow>
            uuidCalls (processImage w p cd x s) \<le> N \<Longrightarrow> P (processImage w p cd x s)"
          by (rule img)
        show "P (convertAndAppendP w p st)" by (rule conv [OF assms(1)])
        from assms(2) eq
        show "uuidCalls (fold (processImage w p cd) (Find sel_photo_img c) (convertAndAppendP w p st)) \<le> N"
          by simp
      qed
      with eq show ?thesis by simp
    next
      case nogrid: False
      show ?thesis
      proof (cases "outerHtml w (snd c)")
        case (Inl e)
        with nohead nogrid lg [OF assms(1)] show ?thesis
          by (simp add: processChild_def)
      next
        case (Inr htmlContent)
        then have h: "outerHtml w (snd c) = Inr htmlContent \<or> htmlContent = []" by simp
        note one = wr [OF assms(3) h assms(1)]
        have fb: "P (fold (\<lambda>x. writeAndConvert w p (outerHtmlOrEmpty w x)) (Find sel_bodyText c) st)"
          by (rule text_fold) (rule Find_descs [OF _ assms(3)])
        have fp: "P (fold (\<lambda>x. writeAndConvert w p (outerHtmlOrEmpty w x)) (Find sel_p c) st)"
          by (rule text_fold) (rule Find_descs [OF _ assms(3)])
        from nohead nogrid Inr one fb fp assms(1) show ?thesis
          by (simp add: processChild_def)
      qed
    qed
  qed
qed

lemma processChild_mono: "uuidCalls st \<le> uuidCalls (processChild w p cd s st)"
proof -
  have t: "uuidCalls (fold (\<lambda>x. writeAndConvert w p (f x)) xs st) = uuidCalls st" for f xs
    by (induction xs arbitrary: st) (simp_all add: writeAndConvert_fields)
  have i: "uuidCalls st' \<le> uuidCalls (fold (processImage w p cd) xs st')" for xs st'
    by (rule fold_mono_measure) (rule processImage_mono)
  from i [of "convertAndAppendP w p st"] show ?thesis
    by (auto simp: processChild_def t writeAndConvert_fields convertAndAppendP_fields
        split: sum.splits)
qed

lemma walkBody_mono: "uuidCalls st \<le> uuidCalls (walkBody w p cd doc st)"
proof -
  have "uuidCalls st \<le> uuidCalls (fold (processChild w p cd) xs st)" for xs
    by (rule fold_mono_measure) (rule processChild_mono)
  then show ?thesis by (simp add: walkBody_def convertAndAppendP_fields)
qed

lemma walkBody_invariant:
  assumes "P st" and "uuidCalls (walkBody w p cd doc st) \<le> N"
    and conv: "\<And>s. P s \<Longrightarrow> P (convertAndAppendP w p s)"
    and wr: "\<And>s nd html. nd \<in> docDescs doc \<Longrightarrow> outerHtml w nd = Inr html \<or> html = [] \<Longrightarrow> P s
               \<Longrightarrow> P (writeAndConvert w p html s)"
    and img: "\<And>s i. P s \<Longrightarrow> uuidCalls (processImage w p cd i s) \<le> N \<Longrightarrow> P (processImage w p cd i s)"
    and lg: "\<And>s l. P s \<Longrightarrow> P (s\<lparr>logs := logs s @ [l]\<rparr>)"
  shows "P (walkBody w p cd doc st)"
proof -
  let ?cs = "Children (docFind sel_pageContainer doc)"
  have mem: "snd x \<in> docDescs doc" if "x \<in> set ?cs" for x
    using that by (rule Children_descs) (rule docFind_descs)
  have "P (fold (processChild w p cd) ?cs st)"
  proof (rule fold_bounded_invariant [where m = uuidCalls and N = N])
    show "\<And>x s. uuidCalls s \<le> uuidCalls (processChild w p cd x s)"
      by (rule processChild_mono)
    show "P st" by (rule assms(1))
    from assms(2) show "uuidCalls (fold (processChild w p cd) ?cs st) \<le> N"
      by (simp add: walkBody_def convertAndAppendP_fields)
    fix x s
    assume a: "x \<in> set ?cs" "P s" "uuidCalls (processChild w p cd x s) \<le> N"
    show "P (processChild w p cd x s)"
    proof (rule processChild_invariant [where N = N and doc = doc])
      show "P s" by (rule a(2))
      show "uuidCalls (processChild w p cd x s) \<le> N" by (rule a(3))
      show "snd x \<in> docDescs doc" by (rule mem [OF a(1)])
      show "\<And>s. P s \<Longrightarrow> P (convertAndAppendP w p s)" by (rule conv)
      show "\<And>s nd html. nd \<in> docDescs doc \<Longrightarrow> outerHtml w nd = Inr html \<or> html = [] \<Longrightarrow> P s
               \<Longrightarrow> P (writeAndConvert w p html s)" by (rule wr)
      show "\<And>s i. P s \<Longrightarrow> uuidCalls (processImage w p cd i s) \<le> N \<Longrightarrow> P (processImage w p cd i s)"
        by (rule img)
      show "\<And>s l. P s \<Longrightarrow> P (s\<lparr>logs := logs s @ [l]\<rparr>)" by (rule lg)
    qed
  qed
  from conv [OF this] show ?thesis by (simp add: walkBody_def)
qed

section \<open>Freshly minted identifiers\<close>

lemma update_values_subset: "snd ` set (AList.update k v al) \<subseteq> insert v (snd ` set al)"
  by (induction al) auto

lemma update_values_distinct:
  assumes "distinct (map snd al)" and "v \<notin> snd ` set al"
  shows "distinct (map snd (AList.update k v al))"
  using assms
proof (induction al)
  case Nil
  then show ?case by simp
next
  case (Cons a al)
  show ?case
  proof (cases "fst a = k")
    case True
    with Cons.prems show ?thesis by auto
  next
    case False
    from Cons.prems have "distinct (map snd (AList.update k v al))"
      by (intro Cons.IH) auto
    moreover from Cons.prems update_values_subset [of k v al]
    have "snd a \<notin> snd ` set (AList.update k v al)" by auto
    ultimately show ?thesis using False by simp
  qed
qed

lemma mintedInv_media:
  assumes "mintedInv w lo st" and "v \<in> snd ` set (mediaToCopy st)"
  shows "\<exists>i. \<exists>ext \<in> set imageExts. lo \<le> i \<and> i < uuidCalls st
               \<and> v = ''photos/'' @ newDayOneUUID w i @ ext
               \<and> newDayOneUUID w i \<in> Identifier ` set (entryPhotos st)"
proof -
  from assms(1) have "\<forall>v \<in> snd ` set (mediaToCopy st). \<exists>i. \<exists>ext \<in> set imageExts.
      lo \<le> i \<and> i < uuidCalls st \<and> v = ''photos/'' @ newDayOneUUID w i @ ext
      \<and> newDayOneUUID w i \<in> Identifier ` set (entryPhotos st)"
    unfolding mintedInv_def by (elim conjE)
  then show ?thesis using assms(2) by (rule bspec)
qed

lemma mintedInv_weaken:
  assumes "mintedInv w lo st" and "entryPhotos st' = entryPhotos st"
    and "mediaToCopy st' = mediaToCopy st" and "uuidCalls st \<le> uuidCalls st'"
  shows "mintedInv w lo st'"
proof -
  from assms(1) obtain "is" where "is": "map Identifier (entryPhotos st) = map (newDayOneUUID w) is"
      "sorted_wrt (<) is" "\<forall>i \<in> set is. lo \<le> i \<and> i < uuidCalls st"
    by (auto simp: mintedInv_def)
  from "is"(3) assms(4) have b: "\<forall>i \<in> set is. lo \<le> i \<and> i < uuidCalls st'" by auto
  have m: "\<exists>i. \<exists>ext \<in> set imageExts. lo \<le> i \<and> i < uuidCalls st'
               \<and> v = ''photos/'' @ newDayOneUUID w i @ ext
               \<and> newDayOneUUID w i \<in> Identifier ` set (entryPhotos st')"
    if "v \<in> snd ` set (mediaToCopy st')" for v
  proof -
    from that assms(3) have "v \<in> snd ` set (mediaToCopy st)" by simp
    from mintedInv_media [OF assms(1) this]
    obtain i ext where x: "ext \<in> set imageExts" "lo \<le> i" "i < uuidCalls st"
        "v = ''photos/'' @ newDayOneUUID w i @ ext"
        "newDayOneUUID w i \<in> Identifier ` set (entryPhotos st)"
      by blast
    from x(3) assms(4) have "i < uuidCalls st'" by simp
    with x assms(2) show ?thesis
      by (intro exI [of _ i] bexI [of _ ext]) simp_all
  qed
  from assms(1,4) have "lo \<le> uuidCalls st'" by (simp add: mintedInv_def)
  moreover from assms(1,3) have "distinct (map snd (mediaToCopy st'))" "distinct (map fst (mediaToCopy st'))"
    by (simp_all add: mintedInv_def)
  ultimately show ?thesis
    unfolding mintedInv_def using "is"(1,2) b m assms(2) by auto
qed

lemma processImage_minted:
  assumes inj: "inj_on (newDayOneUUID w) {..<N}" and inv: "mintedInv w lo st"
    and bound: "uuidCalls (processImage w p cd i st) \<le> N"
  shows "mintedInv w lo (processImage w p cd i st)"
proof -
  let ?st' = "processImage w p cd i st"
  let ?n = "uuidCalls st"
  from inv obtain "is" where "is": "map Identifier (entryPhotos st) = map (newDayOneUUID w) is"
      "sorted_wrt (<) is" "\<forall>i \<in> set is. lo \<le> i \<and> i < ?n"
    by (auto simp: mintedInv_def)
  from inv have lo: "lo \<le> ?n" and dv: "distinct (map snd (mediaToCopy st))"
    and dk: "distinct (map fst (mediaToCopy st))"
    by (simp_all add: mintedInv_def)
  have old: "\<exists>i. \<exists>ext \<in> set imageExts. lo \<le> i \<and> i < ?n
               \<and> v = ''photos/'' @ newDayOneUUID w i @ ext
               \<and> newDayOneUUID w i \<in> Identifier ` set (entryPhotos st)"
    if "v \<in> snd ` set (mediaToCopy st)" for v
    using mintedInv_media [OF inv that] .
  from processImage_cases [of w p cd i st] show ?thesis
  proof
    assume "entryPhotos ?st' = entryPhotos st \<and> mediaToCopy ?st' = mediaToCopy st
       \<and> bodyMarkdownBuilder ?st' = bodyMarkdownBuilder st
       \<and> currentPContent ?st' = currentPContent st \<and> ?n \<le> uuidCalls ?st'"
    then show ?thesis by (intro mintedInv_weaken [OF inv]) simp_all
  next
    assume "\<exists>src ext md5. ext \<in> set imageExts
         \<and> entryPhotos ?st' = entryPhotos st @ [\<lparr>MD5 = md5, Type = TrimPrefix ext ''.'',
                  Identifier = newDayOneUUID w ?n, PhotoCreationDate = cd\<rparr>]
         \<and> mediaToCopy ?st' = AList.update src (''photos/'' @ newDayOneUUID w ?n @ ext) (mediaToCopy st)
         \<and> bodyMarkdownBuilder ?st' = bodyMarkdownBuilder st @ placeholder (newDayOneUUID w ?n) @ blankLine
         \<and> currentPContent ?st' = currentPContent st
         \<and> uuidCalls ?st' = Suc ?n"
    then obtain src ext md5 where ext: "ext \<in> set imageExts"
      and ph: "entryPhotos ?st' = entryPhotos st @ [\<lparr>MD5 = md5, Type = TrimPrefix ext ''.'',
                  Identifier = newDayOneUUID w ?n, PhotoCreationDate = cd\<rparr>]"
      and me: "mediaToCopy ?st' = AList.update src (''photos/'' @ newDayOneUUID w ?n @ ext) (mediaToCopy st)"
      and uu: "uuidCalls ?st' = Suc ?n"
      by blast
    let ?v = "''photos/'' @ newDayOneUUID w ?n @ ext"
    from bound uu have nN: "?n < N" by simp
    have fresh: "?v \<notin> snd ` set (mediaToCopy st)"
    proof
      assume "?v \<in> snd ` set (mediaToCopy st)"
      from old [OF this] obtain j e where j: "e \<in> set imageExts" "j < ?n"
          "?v = ''photos/'' @ newDayOneUUID w j @ e" by blast
      from dest_token_eq [OF hex_no_separator(2) [OF newDayOneUUID_hex]
          hex_no_separator(2) [OF newDayOneUUID_hex] ext j(1) j(3)]
      have "newDayOneUUID w ?n = newDayOneUUID w j" .
      with inj nN j(2) have "?n = j" by (auto dest: inj_onD)
      with j(2) show False by simp
    qed
    have 1: "lo \<le> uuidCalls ?st'" using lo uu by simp
    have 2: "map Identifier (entryPhotos ?st') = map (newDayOneUUID w) (is @ [?n])"
      using "is"(1) ph by simp
    have 3: "sorted_wrt (<) (is @ [?n])"
      using "is"(2,3) by (simp add: sorted_wrt_append)
    have 4: "\<forall>i \<in> set (is @ [?n]). lo \<le> i \<and> i < uuidCalls ?st'"
      using "is"(3) lo uu by auto
    have 5: "\<exists>i. \<exists>e \<in> set imageExts. lo \<le> i \<and> i < uuidCalls ?st'
               \<and> v = ''photos/'' @ newDayOneUUID w i @ e
               \<and> newDayOneUUID w i \<in> Identifier ` set (entryPhotos ?st')"
      if "v \<in> snd ` set (mediaToCopy ?st')" for v
    proof (cases "v = ?v")
      case True
      have "newDayOneUUID w ?n \<in> Identifier ` set (entryPhotos ?st')"
        unfolding ph by (simp add: image_iff)
      with True ext lo uu show ?thesis
        by (intro exI [of _ ?n] bexI [of _ ext]) simp_all
    next
      case False
      with that me update_values_subset [of src ?v "mediaToCopy st"]
      have "v \<in> snd ` set (mediaToCopy st)" by auto
      from old [OF this] obtain j e where j: "e \<in> set imageExts" "lo \<le> j" "j < ?n"
          "v = ''photos/'' @ newDayOneUUID w j @ e"
          "newDayOneUUID w j \<in> Identifier ` set (entryPhotos st)" by blast
      from j(5) have "newDayOneUUID w j \<in> Identifier ` set (entryPhotos ?st')"
        unfolding ph by auto
      with j uu show ?thesis
        by (intro exI [of _ j] bexI [of _ e]) simp_all
    qed
    have 6: "distinct (map snd (mediaToCopy ?st'))"
      unfolding me by (rule update_values_distinct [OF dv fresh])
    have 7: "distinct (map fst (mediaToCopy ?st'))"
      unfolding me using dk by (simp add: distinct_update)
    show ?thesis
      unfolding mintedInv_def using 1 2 3 4 5 6 7 by blast
  qed
qed

lemma walkBody_minted:
  assumes "inj_on (newDayOneUUID w) {..<N}" and "mintedInv w lo st"
    and "uuidCalls (walkBody w p cd doc st) \<le> N"
  shows "mintedInv w lo (walkBody w p cd doc st)"
proof (rule walkBody_invariant [where N = N])
  show "mintedInv w lo st" by (rule assms(2))
  show "uuidCalls (walkBody w p cd doc st) \<le> N" by (rule assms(3))
  show "\<And>s. mintedInv w lo s \<Longrightarrow> mintedInv w lo (convertAndAppendP w p s)"
    by (erule mintedInv_weaken) (simp_all add: convertAndAppendP_fields)
  show "\<And>s nd html. nd \<in> docDescs doc \<Longrightarrow> outerHtml w nd = Inr html \<or> html = [] \<Longrightarrow>
      mintedInv w lo s \<Longrightarrow> mintedInv w lo (writeAndConvert w p html s)"
    by (erule mintedInv_weaken) (simp_all add: writeAndConvert_fields)
  show "\<And>s i. mintedInv w lo s \<Longrightarrow> uuidCalls (processImage w p cd i s) \<le> N \<Longrightarrow>
      mintedInv w lo (processImage w p cd i s)"
    by (rule processImage_minted [OF assms(1)])
  show "\<And>s l. mintedInv w lo s \<Longrightarrow> mintedInv w lo (s\<lparr>logs := logs s @ [l]\<rparr>)"
    by (erule mintedInv_weaken) simp_all
qed

lemma processEntryHTML_Inr:
  assumes "outcome (processEntryHTML w p r tz n) = Inr (e, m)"
  obtains f doc t where "readFile w p = Inr f" "parseHTML w f = Inr doc"
    "TrimSpace (firstText (docFind sel_pageHeader doc)) \<noteq> []"
    "parseAppleDate (TrimSpace (firstText (docFind sel_pageHeader doc))) = Inr t"
    "e = \<lparr>UUID = newDayOneUUID w n, CreationDate = formatRFC3339 t, ModifiedDate = formatRFC3339 t,
          Text = Text e, Starred = False, TimeZone = tz,
          Photos = entryPhotos (walkBody w p (formatRFC3339 t) doc (initLoopState (Suc n)))\<rparr>"
    "m = mediaToCopy (walkBody w p (formatRFC3339 t) doc (initLoopState (Suc n)))"
    "uuidsDrawn (processEntryHTML w p r tz n)
       = uuidCalls (walkBody w p (formatRFC3339 t) doc (initLoopState (Suc n)))"
    "Text e = (if extractTitle doc p \<noteq> [] then ''# '' @ extractTitle doc p @ blankLine else [])
         @ TrimSpace (bodyMarkdownBuilder (walkBody w p (formatRFC3339 t) doc (initLoopState (Suc n))))"
proof (cases "readFile w p")
  case (Inl x)
  with assms show ?thesis by (simp add: processEntryHTML_def)
next
  case f: (Inr f)
  show ?thesis
  proof (cases "parseHTML w f")
    case (Inl x)
    with assms f show ?thesis by (simp add: processEntryHTML_def)
  next
    case doc: (Inr doc)
    let ?d = "TrimSpace (firstText (docFind sel_pageHeader doc))"
    from assms f doc have d: "?d \<noteq> []"
      by (auto simp: processEntryHTML_def Let_def split: if_splits)
    show ?thesis
    proof (cases "parseAppleDate ?d")
      case (Inl x)
      with assms f doc d show ?thesis by (simp add: processEntryHTML_def Let_def)
    next
      case t: (Inr t)
      note s = processEntryHTML_success [OF f doc d t, of r tz n]
      from assms s show ?thesis
        by (intro that [OF f doc d t]) (auto simp: Let_def split: if_splits)
    qed
  qed
qed

lemma uuidsDrawn_mono: "n \<le> uuidsDrawn (processEntryHTML w p r tz n)"
proof -
  have "Suc n \<le> uuidCalls (walkBody w p cd doc (initLoopState (Suc n)))" for cd doc
    using walkBody_mono [of "initLoopState (Suc n)" w p cd doc] by (simp add: initLoopState_def)
  then have "n \<le> uuidCalls (walkBody w p cd doc (initLoopState (Suc n)))" for cd doc
    using Suc_leD by blast
  then show ?thesis
    by (simp add: processEntryHTML_def Let_def split: sum.splits)
qed

lemma processEntryHTML_minted:
  assumes out: "outcome (processEntryHTML w p r tz n) = Inr (e, m)"
    and inj: "inj_on (newDayOneUUID w) {..<N}"
    and bound: "uuidsDrawn (processEntryHTML w p r tz n) \<le> N"
  shows "\<exists>is. map Identifier (Photos e) = map (newDayOneUUID w) is \<and> sorted_wrt (<) is
           \<and> (\<forall>i \<in> set is. n < i \<and> i < uuidsDrawn (processEntryHTML w p r tz n))"
    and "\<forall>v \<in> snd ` set m. \<exists>i. \<exists>ext \<in> set imageExts.
           n < i \<and> i < uuidsDrawn (processEntryHTML w p r tz n)
           \<and> v = ''photos/'' @ newDayOneUUID w i @ ext
           \<and> newDayOneUUID w i \<in> Identifier ` set (Photos e)"
    and "distinct (map snd m)" and "distinct (map fst m)"
proof -
  from out obtain f doc t where
    e: "e = \<lparr>UUID = newDayOneUUID w n, CreationDate = formatRFC3339 t, ModifiedDate = formatRFC3339 t,
          Text = Text e, Starred = False, TimeZone = tz,
          Photos = entryPhotos (walkBody w p (formatRFC3339 t) doc (initLoopState (Suc n)))\<rparr>"
    and m: "m = mediaToCopy (walkBody w p (formatRFC3339 t) doc (initLoopState (Suc n)))"
    and u: "uuidsDrawn (processEntryHTML w p r tz n)
       = uuidCalls (walkBody w p (formatRFC3339 t) doc (initLoopState (Suc n)))"
    by (rule processEntryHTML_Inr)
  let ?S = "walkBody w p (formatRFC3339 t) doc (initLoopState (Suc n))"
  from e have ph: "Photos e = entryPhotos ?S"
    by (metis DayOneEntry.select_convs(7))
  have "mintedInv w (Suc n) (initLoopState (Suc n))"
    by (simp add: mintedInv_def initLoopState_def)
  from walkBody_minted [OF inj this, of p "formatRFC3339 t" doc] bound u
  have inv: "mintedInv w (Suc n) ?S" by simp
  then obtain "is" where "is": "map Identifier (entryPhotos ?S) = map (newDayOneUUID w) is"
      "sorted_wrt (<) is" "\<forall>i \<in> set is. Suc n \<le> i \<and> i < uuidCalls ?S"
    by (auto simp: mintedInv_def)
  then show "\<exists>is. map Identifier (Photos e) = map (newDayOneUUID w) is \<and> sorted_wrt (<) is
           \<and> (\<forall>i \<in> set is. n < i \<and> i < uuidsDrawn (processEntryHTML w p r tz n))"
    unfolding ph u by (intro exI [of _ "is"]) auto
  show "\<forall>v \<in> snd ` set m. \<exists>i. \<exists>ext \<in> set imageExts.
           n < i \<and> i < uuidsDrawn (processEntryHTML w p r tz n)
           \<and> v = ''photos/'' @ newDayOneUUID w i @ ext
           \<and> newDayOneUUID w i \<in> Identifier ` set (Photos e)"
  proof
    fix v
    assume "v \<in> snd ` set m"
    with m have "v \<in> snd ` set (mediaToCopy ?S)" by simp
    from mintedInv_media [OF inv this]
    obtain i ext where x: "ext \<in> set imageExts" "Suc n \<le> i" "i < uuidCalls ?S"
        "v = ''photos/'' @ newDayOneUUID w i @ ext"
        "newDayOneUUID w i \<in> Identifier ` set (entryPhotos ?S)"
      by blast
    then show "\<exists>i. \<exists>ext \<in> set imageExts.
           n < i \<and> i < uuidsDrawn (processEntryHTML w p r tz n)
           \<and> v = ''photos/'' @ newDayOneUUID w i @ ext
           \<and> newDayOneUUID w i \<in> Identifier ` set (Photos e)"
      unfolding ph u by (intro exI [of _ i] bexI [of _ ext]) simp_all
  qed
  from inv m show "distinct (map snd m)" "distinct (map fst m)"
    by (simp_all add: mintedInv_def)
qed

section \<open>The merged media map of a run\<close>

lemma mergeMedia_Nil: "mergeMedia [] acc = acc"
  by (simp add: mergeMedia_def)

lemma mergeMedia_Cons: "mergeMedia ((k, v) # m) acc = mergeMedia m (AList.update k v acc)"
  by (simp add: mergeMedia_def)

lemma mergeMedia_values: "snd ` set (mergeMedia m acc) \<subseteq> snd ` set m \<union> snd ` set acc"
proof (induction m arbitrary: acc)
  case Nil
  then show ?case by (simp add: mergeMedia_Nil)
next
  case (Cons a m)
  obtain k v where a: "a = (k, v)" by (cases a)
  from Cons.IH [of "AList.update k v acc"] update_values_subset [of k v acc]
  show ?case unfolding a mergeMedia_Cons by auto
qed

lemma mergeMedia_distinct:
  assumes "distinct (map snd acc)" and "distinct (map snd m)"
    and "snd ` set m \<inter> snd ` set acc = {}"
  shows "distinct (map snd (mergeMedia m acc))"
  using assms
proof (induction m arbitrary: acc)
  case Nil
  then show ?case by (simp add: mergeMedia_Nil)
next
  case (Cons a m)
  obtain k v where a: "a = (k, v)" by (cases a)
  from Cons.prems a have v: "v \<notin> snd ` set acc" by auto
  from Cons.prems(1) v have 1: "distinct (map snd (AList.update k v acc))"
    by (rule update_values_distinct)
  from Cons.prems(2) have 2: "distinct (map snd m)" by simp
  from Cons.prems(2) a have vm: "v \<notin> snd ` set m" by (simp add: image_iff)
  have 3: "snd ` set m \<inter> snd ` set (AList.update k v acc) = {}"
  proof (rule ccontr)
    assume "snd ` set m \<inter> snd ` set (AList.update k v acc) \<noteq> {}"
    then obtain x where x: "x \<in> snd ` set m" "x \<in> snd ` set (AList.update k v acc)" by blast
    from x(2) update_values_subset [of k v acc] have "x = v \<or> x \<in> snd ` set acc" by blast
    moreover from x(1) vm have "x \<noteq> v" by blast
    moreover from x(1) Cons.prems(3) have "x \<notin> snd ` set acc" by auto
    ultimately show False by blast
  qed
  from Cons.IH [OF 1 2 3] show ?case unfolding a mergeMedia_Cons .
qed

lemma mergeMedia_other:
  assumes "k \<notin> fst ` set m"
  shows "map_of (mergeMedia m acc) k = map_of acc k"
  using assms
proof (induction m arbitrary: acc)
  case Nil
  then show ?case by (simp add: mergeMedia_Nil)
next
  case (Cons a m)
  obtain k' v where a: "a = (k', v)" by (cases a)
  from Cons.prems a have "k \<noteq> k'" "k \<notin> fst ` set m" by auto
  with Cons.IH [of "AList.update k' v acc"] show ?case
    unfolding a mergeMedia_Cons by (simp add: update_conv')
qed

lemma mergeMedia_last_writer:
  assumes "distinct (map fst m)" and "map_of m k = Some v"
  shows "map_of (mergeMedia m acc) k = Some v"
  using assms
proof (induction m arbitrary: acc)
  case Nil
  then show ?case by simp
next
  case (Cons a m)
  obtain k' v' where a: "a = (k', v')" by (cases a)
  show ?case
  proof (cases "k' = k")
    case True
    with Cons.prems a have "v' = v" "k \<notin> fst ` set m" by auto
    with mergeMedia_other [of k m "AList.update k v acc"] True show ?thesis
      unfolding a mergeMedia_Cons by (simp add: update_conv')
  next
    case False
    with Cons.prems a have "distinct (map fst m)" "map_of m k = Some v" by auto
    from Cons.IH [OF this] show ?thesis unfolding a mergeMedia_Cons .
  qed
qed

lemma dest_distinct_draws:
  assumes "inj_on (newDayOneUUID w) {..<N}" and "i < N" and "j < N" and "i \<noteq> j"
    and "ext \<in> set imageExts" and "ext' \<in> set imageExts"
  shows "''photos/'' @ newDayOneUUID w i @ ext \<noteq> ''photos/'' @ newDayOneUUID w j @ ext'"
proof
  assume "''photos/'' @ newDayOneUUID w i @ ext = ''photos/'' @ newDayOneUUID w j @ ext'"
  from dest_token_eq [OF hex_no_separator(2) [OF newDayOneUUID_hex]
      hex_no_separator(2) [OF newDayOneUUID_hex] assms(5,6) this]
  have "newDayOneUUID w i = newDayOneUUID w j" .
  with assms(1-4) show False by (auto dest: inj_onD)
qed

lemma walkFn_mono:
  assumes "walkFn w r tz item st = (err, st')"
  shows "runUUIDs st \<le> runUUIDs st'"
  using assms uuidsDrawn_mono [of "runUUIDs st" w "wPath item" r tz]
  by (auto simp: walkFn_def Let_def split: option.splits sum.splits if_splits prod.splits)

lemma walkItems_mono:
  assumes "walkItems w r tz items st = (err, st')"
  shows "runUUIDs st \<le> runUUIDs st'"
  using assms
proof (induction items arbitrary: st)
  case Nil
  then show ?case by simp
next
  case (Cons item items)
  obtain err1 st1 where step: "walkFn w r tz item st = (err1, st1)"
    by (cases "walkFn w r tz item st")
  note m = walkFn_mono [OF step]
  show ?case
  proof (cases err1)
    case None
    with step Cons.prems have "walkItems w r tz items st1 = (err, st')" by simp
    from Cons.IH [OF this] m show ?thesis by simp
  next
    case (Some x)
    with step Cons.prems have "st' = st1" by simp
    with m show ?thesis by simp
  qed
qed

lemma runInv_weaken:
  assumes "runInv w st" and "allMediaToCopy st' = allMediaToCopy st"
    and "runUUIDs st \<le> runUUIDs st'"
  shows "runInv w st'"
proof -
  have "\<exists>i. \<exists>ext \<in> set imageExts. i < runUUIDs st' \<and> v = ''photos/'' @ newDayOneUUID w i @ ext"
    if "v \<in> snd ` set (allMediaToCopy st')" for v
  proof -
    from that assms(1,2) obtain i ext where x: "ext \<in> set imageExts" "i < runUUIDs st"
        "v = ''photos/'' @ newDayOneUUID w i @ ext"
      unfolding runInv_def by force
    from x(2) assms(3) have "i < runUUIDs st'" by simp
    with x show ?thesis by (intro exI [of _ i] bexI [of _ ext]) simp_all
  qed
  moreover from assms(1,2) have "distinct (map snd (allMediaToCopy st'))"
    by (simp add: runInv_def)
  ultimately show ?thesis unfolding runInv_def by blast
qed

lemma walkFn_cases:
  assumes "walkFn w r tz item st = (err, st')"
  shows "(allMediaToCopy st' = allMediaToCopy st \<and> runUUIDs st \<le> runUUIDs st')
       \<or> (\<exists>e m. outcome (processEntryHTML w (wPath item) r tz (runUUIDs st)) = Inr (e, m)
              \<and> allMediaToCopy st' = mergeMedia m (allMediaToCopy st)
              \<and> runUUIDs st' = uuidsDrawn (processEntryHTML w (wPath item) r tz (runUUIDs st)))"
  using assms uuidsDrawn_mono [of "runUUIDs st" w "wPath item" r tz]
  by (auto simp: walkFn_def Let_def split: option.splits sum.splits if_splits prod.splits)

lemma walkFn_runInv:
  assumes inj: "inj_on (newDayOneUUID w) {..<N}"
    and step: "walkFn w r tz item st = (err, st')"
    and inv: "runInv w st" and bound: "runUUIDs st' \<le> N"
  shows "runInv w st'"
proof -
  let ?r = "processEntryHTML w (wPath item) r tz (runUUIDs st)"
  from walkFn_cases [OF step] show ?thesis
  proof
    assume "allMediaToCopy st' = allMediaToCopy st \<and> runUUIDs st \<le> runUUIDs st'"
    then show ?thesis by (intro runInv_weaken [OF inv]) simp_all
  next
    assume "\<exists>e m. outcome ?r = Inr (e, m) \<and> allMediaToCopy st' = mergeMedia m (allMediaToCopy st)
              \<and> runUUIDs st' = uuidsDrawn ?r"
    then obtain e m where out: "outcome ?r = Inr (e, m)"
      and me: "allMediaToCopy st' = mergeMedia m (allMediaToCopy st)"
      and uu: "runUUIDs st' = uuidsDrawn ?r" by blast
    from bound uu have b: "uuidsDrawn ?r \<le> N" by simp
    note new = processEntryHTML_minted(2) [OF out inj b]
    note dn = processEntryHTML_minted(3) [OF out inj b]
    from inv have dv: "distinct (map snd (allMediaToCopy st))" by (simp add: runInv_def)
    have old: "\<exists>i. \<exists>ext \<in> set imageExts. i < runUUIDs st \<and> v = ''photos/'' @ newDayOneUUID w i @ ext"
      if "v \<in> snd ` set (allMediaToCopy st)" for v
      using that inv unfolding runInv_def by force
    have disj: "snd ` set m \<inter> snd ` set (allMediaToCopy st) = {}"
    proof (rule ccontr)
      assume "snd ` set m \<inter> snd ` set (allMediaToCopy st) \<noteq> {}"
      then obtain v where v: "v \<in> snd ` set m" "v \<in> snd ` set (allMediaToCopy st)" by blast
      from new v(1) obtain i ext where i: "ext \<in> set imageExts" "runUUIDs st < i"
          "i < uuidsDrawn ?r" "v = ''photos/'' @ newDayOneUUID w i @ ext" by blast
      from old [OF v(2)] obtain j ext' where j: "ext' \<in> set imageExts" "j < runUUIDs st"
          "v = ''photos/'' @ newDayOneUUID w j @ ext'" by blast
      from i(2,3) j(2) b have "i < N" "j < N" "i \<noteq> j" by simp_all
      from dest_distinct_draws [OF inj this i(1) j(1)] i(4) j(3) show False by simp
    qed
    have 1: "\<exists>i. \<exists>ext \<in> set imageExts. i < runUUIDs st' \<and> v = ''photos/'' @ newDayOneUUID w i @ ext"
      if "v \<in> snd ` set (allMediaToCopy st')" for v
    proof -
      from that me mergeMedia_values [of m "allMediaToCopy st"]
      have "v \<in> snd ` set m \<or> v \<in> snd ` set (allMediaToCopy st)" by auto
      then show ?thesis
      proof
        assume "v \<in> snd ` set m"
        with new obtain i ext where i: "ext \<in> set imageExts" "i < uuidsDrawn ?r"
          "v = ''photos/'' @ newDayOneUUID w i @ ext" by blast
        then show ?thesis unfolding uu by (intro exI [of _ i] bexI [of _ ext]) simp_all
      next
        assume "v \<in> snd ` set (allMediaToCopy st)"
        from old [OF this] obtain j ext' where j: "ext' \<in> set imageExts" "j < runUUIDs st"
          "v = ''photos/'' @ newDayOneUUID w j @ ext'" by blast
        from j(2) walkFn_mono [OF step] have "j < runUUIDs st'" by simp
        with j show ?thesis by (intro exI [of _ j] bexI [of _ ext']) simp_all
      qed
    qed
    have 2: "distinct (map snd (allMediaToCopy st'))"
      unfolding me by (rule mergeMedia_distinct [OF dv dn disj])
    from 1 2 show ?thesis unfolding runInv_def by blast
  qed
qed

lemma walkItems_runInv:
  assumes "inj_on (newDayOneUUID w) {..<N}"
    and "walkItems w r tz items st = (err, st')"
    and "runInv w st" and "runUUIDs st' \<le> N"
  shows "runInv w st'"
  using assms(2-)
proof (induction items arbitrary: st)
  case Nil
  then show ?case by simp
next
  case (Cons item items)
  obtain err1 st1 where step: "walkFn w r tz item st = (err1, st1)"
    by (cases "walkFn w r tz item st")
  show ?case
  proof (cases err1)
    case None
    with step Cons.prems(1) have rest: "walkItems w r tz items st1 = (err, st')" by simp
    from walkItems_mono [OF rest] Cons.prems(3) have "runUUIDs st1 \<le> N" by simp
    from walkFn_runInv [OF assms(1) step Cons.prems(2) this] have "runInv w st1" .
    from Cons.IH [OF rest this Cons.prems(3)] show ?thesis .
  next
    case (Some x)
    with step Cons.prems(1) have "st' = st1" by simp
    with walkFn_runInv [OF assms(1) step Cons.prems(2)] Cons.prems(3) show ?thesis by simp
  qed
qed

lemma main_media:
  assumes "main w i out tz = Completed j media lg" and "mkdirTemp w = Inr tmp"
  shows "\<exists>st. walkItems w (snd (detectPaths w tmp)) tz (walkDir w (fst (detectPaths w tmp)))
                 (initRunState w (snd (detectPaths w tmp))) = (None, st)
              \<and> media = allMediaToCopy st \<and> j = dayOneJournal st
              \<and> runUUIDs st = runDraws w tz tmp"
  using assms
  by (auto simp: main_def Let_def runDraws_def
      split: if_splits sum.splits option.splits prod.splits)

lemma main_media_minted:
  assumes "main w i out tz = Completed j media lg" and "mkdirTemp w = Inr tmp"
    and "inj_on (newDayOneUUID w) {..<runDraws w tz tmp}"
  shows "distinct (map snd media)"
    and "\<forall>v \<in> snd ` set media. \<exists>n. \<exists>ext \<in> set imageExts.
           n < runDraws w tz tmp \<and> v = ''photos/'' @ newDayOneUUID w n @ ext"
proof -
  from main_media [OF assms(1,2)] obtain st where
    wk: "walkItems w (snd (detectPaths w tmp)) tz (walkDir w (fst (detectPaths w tmp)))
                 (initRunState w (snd (detectPaths w tmp))) = (None, st)"
    and m: "media = allMediaToCopy st" and u: "runUUIDs st = runDraws w tz tmp" by blast
  have "runInv w (initRunState w (snd (detectPaths w tmp)))"
    by (simp add: runInv_def initRunState_def)
  from walkItems_runInv [OF assms(3) wk this] u have "runInv w st" by simp
  then show "distinct (map snd media)"
    and "\<forall>v \<in> snd ` set media. \<exists>n. \<exists>ext \<in> set imageExts.
           n < runDraws w tz tmp \<and> v = ''photos/'' @ newDayOneUUID w n @ ext"
    unfolding m u [symmetric] runInv_def by simp_all
qed

lemma sample_tokens:
  "map (newDayOneUUID sampleWorld) [0, 1, 2, 3, 4, 5] =
     [''00000000000000000000000000000000'', ''01010101010101010101010101010101'',
      ''02020202020202020202020202020202'', ''03030303030303030303030303030303'',
      ''04040404040404040404040404040404'', ''05050505050505050505050505050505'']"
  by code_simp

lemma sample_inj: "inj_on (newDayOneUUID sampleWorld) {..<6}"
proof -
  have "distinct (map (newDayOneUUID sampleWorld) [0, 1, 2, 3, 4, 5])"
    unfolding sample_tokens by simp
  then have "inj_on (newDayOneUUID sampleWorld) (set [0, 1, 2, 3, 4, 5])"
    by (simp only: distinct_map)
  moreover have "{..<6::nat} = set [0, 1, 2, 3, 4, 5]" by auto
  ultimately show ?thesis by simp
qed

lemma sample_draws: "runDraws sampleWorld ''UTC'' ''/t'' = 6"
proof -
  have "osStat sampleWorld x = StatOK" "walkDir sampleWorld y = sampleItems" for x y
    by (simp_all add: sampleWorld_def)
  then show ?thesis
    by (simp add: runDraws_def initRunState_def sample_paths sample_walk)
qed

section \<open>Destinations of one run\<close>

text \<open>
  Claim C10. Let the identifier tokens of the first \<open>N\<close> draws be pairwise different. Then
  the media map an entry is returned with, when no more than \<open>N\<close> identifiers have been
  drawn at its end, has every destination of the form \<open>photos/<identifier><extension>\<close>
  for an identifier minted while that entry was processed and carried by one of its
  photos, and no destination twice; the destinations of two entries, the second
  processed after the first, are disjoint; and the merged media map of a completed run
  of no more than \<open>N\<close> draws has pairwise distinct values, each of that form.
\<close>

theorem destinations_pairwise_distinct:
  assumes "inj_on (newDayOneUUID w) {..<N}"
  shows "(outcome (processEntryHTML w p r tz n) = Inr (e, m)
          \<and> uuidsDrawn (processEntryHTML w p r tz n) \<le> N
        \<longrightarrow> distinct (map snd m)
            \<and> (\<forall>v \<in> snd ` set m. \<exists>k. \<exists>ext \<in> set imageExts.
                  n < k \<and> k < uuidsDrawn (processEntryHTML w p r tz n)
                  \<and> v = ''photos/'' @ newDayOneUUID w k @ ext
                  \<and> newDayOneUUID w k \<in> Identifier ` set (Photos e)))
     \<and> (outcome (processEntryHTML w p r tz n) = Inr (e, m)
          \<and> outcome (processEntryHTML w p' r' tz' n') = Inr (e', m')
          \<and> uuidsDrawn (processEntryHTML w p r tz n) \<le> n'
          \<and> uuidsDrawn (processEntryHTML w p' r' tz' n') \<le> N
        \<longrightarrow> snd ` set m \<inter> snd ` set m' = {})
     \<and> (main w i out dtz = Completed j media lg \<and> mkdirTemp w = Inr tmp
          \<and> runDraws w dtz tmp \<le> N
        \<longrightarrow> distinct (map snd media)
            \<and> (\<forall>v \<in> snd ` set media. \<exists>k. \<exists>ext \<in> set imageExts.
                  k < runDraws w dtz tmp \<and> v = ''photos/'' @ newDayOneUUID w k @ ext))"
proof (intro conjI impI)
  assume a: "outcome (processEntryHTML w p r tz n) = Inr (e, m)
          \<and> uuidsDrawn (processEntryHTML w p r tz n) \<le> N"
  then have o: "outcome (processEntryHTML w p r tz n) = Inr (e, m)"
    and b: "uuidsDrawn (processEntryHTML w p r tz n) \<le> N" by simp_all
  show "distinct (map snd m)" by (rule processEntryHTML_minted(3) [OF o assms b])
  show "\<forall>v \<in> snd ` set m. \<exists>k. \<exists>ext \<in> set imageExts.
                  n < k \<and> k < uuidsDrawn (processEntryHTML w p r tz n)
                  \<and> v = ''photos/'' @ newDayOneUUID w k @ ext
                  \<and> newDayOneUUID w k \<in> Identifier ` set (Photos e)"
    by (rule processEntryHTML_minted(2) [OF o assms b])
next
  assume a: "outcome (processEntryHTML w p r tz n) = Inr (e, m)
          \<and> outcome (processEntryHTML w p' r' tz' n') = Inr (e', m')
          \<and> uuidsDrawn (processEntryHTML w p r tz n) \<le> n'
          \<and> uuidsDrawn (processEntryHTML w p' r' tz' n') \<le> N"
  let ?u = "uuidsDrawn (processEntryHTML w p r tz n)"
  let ?u' = "uuidsDrawn (processEntryHTML w p' r' tz' n')"
  from a have o: "outcome (processEntryHTML w p r tz n) = Inr (e, m)"
    and o': "outcome (processEntryHTML w p' r' tz' n') = Inr (e', m')"
    and le: "?u \<le> n'" and b': "?u' \<le> N" by simp_all
  from le uuidsDrawn_mono [of n' w p' r' tz'] b' have b: "?u \<le> N" by simp
  show "snd ` set m \<inter> snd ` set m' = {}"
  proof (rule ccontr)
    assume "snd ` set m \<inter> snd ` set m' \<noteq> {}"
    then obtain v where v: "v \<in> snd ` set m" "v \<in> snd ` set m'" by blast
    from processEntryHTML_minted(2) [OF o assms b] v(1)
    obtain k x where k: "x \<in> set imageExts" "k < ?u" "v = ''photos/'' @ newDayOneUUID w k @ x"
      by blast
    from processEntryHTML_minted(2) [OF o' assms b'] v(2)
    obtain k' x' where k': "x' \<in> set imageExts" "n' < k'" "k' < ?u'"
        "v = ''photos/'' @ newDayOneUUID w k' @ x'"
      by blast
    from k(2) k'(2,3) le b' have "k < N" "k' < N" "k \<noteq> k'" by simp_all
    from dest_distinct_draws [OF assms this k(1) k'(1)] k(3) k'(4) show False by simp
  qed
next
  assume a: "main w i out dtz = Completed j media lg \<and> mkdirTemp w = Inr tmp
          \<and> runDraws w dtz tmp \<le> N"
  then have mn: "main w i out dtz = Completed j media lg" and tmp: "mkdirTemp w = Inr tmp"
    and b: "runDraws w dtz tmp \<le> N" by simp_all
  from b have "{..<runDraws w dtz tmp} \<subseteq> {..<N}" by simp
  with assms have inj: "inj_on (newDayOneUUID w) {..<runDraws w dtz tmp}"
    by (rule inj_on_subset)
  show "distinct (map snd media)" by (rule main_media_minted(1) [OF mn tmp inj])
  show "\<forall>v \<in> snd ` set media. \<exists>k. \<exists>ext \<in> set imageExts.
                  k < runDraws w dtz tmp \<and> v = ''photos/'' @ newDayOneUUID w k @ ext"
    by (rule main_media_minted(2) [OF mn tmp inj])
qed

theorem destinations_pairwise_distinct_witness:
  "inj_on (newDayOneUUID sampleWorld) {..<6}
   \<and> outcome (processEntryHTML sampleWorld ''/t/Entries/a.html'' ''/t/Resources'' ''UTC'' 0)
       = Inr (entryA, [(''/t/Resources/A.PNG'', ''photos/01010101010101010101010101010101.png'')])
   \<and> uuidsDrawn (processEntryHTML sampleWorld ''/t/Entries/a.html'' ''/t/Resources'' ''UTC'' 0) = 2
   \<and> outcome (processEntryHTML sampleWorld ''/t/Entries/b.htm'' ''/t/Resources'' ''UTC'' 2)
       = Inr (entryB, [(''/t/Resources/A.PNG'', ''photos/03030303030303030303030303030303.png'')])
   \<and> uuidsDrawn (processEntryHTML sampleWorld ''/t/Entries/b.htm'' ''/t/Resources'' ''UTC'' 2) = 4
   \<and> main sampleWorld ''in.zip'' ''out.zip'' ''UTC''
       = Completed \<lparr>Metadata = [(''version'', ''1.0'')], Entries = [entryA, entryB]\<rparr>
           [(''/t/Resources/A.PNG'', ''photos/03030303030303030303030303030303.png'')] sampleLogs
   \<and> mkdirTemp sampleWorld = Inr ''/t''
   \<and> runDraws sampleWorld ''UTC'' ''/t'' = 6
   \<and> (\<exists>k. \<exists>ext \<in> set imageExts. 0 < k \<and> k < 2
         \<and> ''photos/01010101010101010101010101010101.png'' = ''photos/'' @ newDayOneUUID sampleWorld k @ ext
         \<and> newDayOneUUID sampleWorld k \<in> Identifier ` set (Photos entryA))
   \<and> snd ` set [(''/t/Resources/A.PNG'', ''photos/01010101010101010101010101010101.png'')]
       \<inter> snd ` set [(''/t/Resources/A.PNG'', ''photos/03030303030303030303030303030303.png'')] = {}
   \<and> (\<exists>k. \<exists>ext \<in> set imageExts. k < 6
         \<and> ''photos/03030303030303030303030303030303.png'' = ''photos/'' @ newDayOneUUID sampleWorld k @ ext)"
proof -
  let ?ma = "[(''/t/Resources/A.PNG'', ''photos/01010101010101010101010101010101.png'')]"
  let ?mb = "[(''/t/Resources/A.PNG'', ''photos/03030303030303030303030303030303.png'')]"
  let ?j = "\<lparr>Metadata = [(''version'', ''1.0'')], Entries = [entryA, entryB]\<rparr>"
  have tmp: "mkdirTemp sampleWorld = Inr ''/t''" by (simp add: sampleWorld_def)
  have oa: "outcome (processEntryHTML sampleWorld ''/t/Entries/a.html'' ''/t/Resources'' ''UTC'' 0)
       = Inr (entryA, ?ma)"
    and ua: "uuidsDrawn (processEntryHTML sampleWorld ''/t/Entries/a.html'' ''/t/Resources'' ''UTC'' 0) = 2"
    by (simp_all only: sample_a procResult.select_convs)
  have ob: "outcome (processEntryHTML sampleWorld ''/t/Entries/b.htm'' ''/t/Resources'' ''UTC'' 2)
       = Inr (entryB, ?mb)"
    and ub: "uuidsDrawn (processEntryHTML sampleWorld ''/t/Entries/b.htm'' ''/t/Resources'' ''UTC'' 2) = 4"
    by (simp_all only: sample_b procResult.select_convs)
  note t = destinations_pairwise_distinct [OF sample_inj,
      where p = "''/t/Entries/a.html''" and r = "''/t/Resources''" and tz = "''UTC''" and n = 0
        and e = entryA and m = ?ma
        and p' = "''/t/Entries/b.htm''" and r' = "''/t/Resources''" and tz' = "''UTC''" and n' = 2
        and e' = entryB and m' = ?mb
        and i = "''in.zip''" and out = "''out.zip''" and dtz = "''UTC''" and j = ?j
        and media = ?mb and lg = sampleLogs and tmp = "''/t''"]
  from t have f1: "\<forall>v \<in> snd ` set ?ma. \<exists>k. \<exists>ext \<in> set imageExts.
                  0 < k \<and> k < 2 \<and> v = ''photos/'' @ newDayOneUUID sampleWorld k @ ext
                  \<and> newDayOneUUID sampleWorld k \<in> Identifier ` set (Photos entryA)"
    unfolding oa ua ob ub by simp
  from t have f2: "snd ` set ?ma \<inter> snd ` set ?mb = {}"
    unfolding oa ua ob ub by simp
  from t have f3: "\<forall>v \<in> snd ` set ?mb. \<exists>k. \<exists>ext \<in> set imageExts.
                  k < 6 \<and> v = ''photos/'' @ newDayOneUUID sampleWorld k @ ext"
    unfolding sample_main sample_draws tmp by simp
  from f1 have g1: "\<exists>k. \<exists>ext \<in> set imageExts. 0 < k \<and> k < 2
         \<and> ''photos/01010101010101010101010101010101.png'' = ''photos/'' @ newDayOneUUID sampleWorld k @ ext
         \<and> newDayOneUUID sampleWorld k \<in> Identifier ` set (Photos entryA)"
    by simp
  from f3 have g3: "\<exists>k. \<exists>ext \<in> set imageExts. k < 6
         \<and> ''photos/03030303030303030303030303030303.png'' = ''photos/'' @ newDayOneUUID sampleWorld k @ ext"
    by simp
  from sample_inj oa ua ob ub sample_main tmp sample_draws g1 f2 g3 show ?thesis
    by (intro conjI)
qed

section \<open>An image shown by a document is recorded\<close>













section \<open>One image shown by two documents\<close>











section \<open>Placeholders in the body\<close>

lemma trimLeading_suffix: "suffix (trimLeading rs s) s"
proof (induction rs s rule: trimLeading.induct)
  case (1 rs)
  then show ?case by simp
next
  case (2 rs c cs)
  show ?case
  proof (cases "leadingWidth rs (c # cs) = 0")
    case True
    then show ?thesis by simp
  next
    case False
    with 2 have "suffix (trimLeading rs (drop (leadingWidth rs (c # cs) - 1) cs))
        (drop (leadingWidth rs (c # cs) - 1) cs)" by simp
    moreover have "suffix (drop (leadingWidth rs (c # cs) - 1) cs) (c # cs)"
      by (meson suffix_drop suffix_ConsI)
    ultimately have "suffix (trimLeading rs (drop (leadingWidth rs (c # cs) - 1) cs)) (c # cs)"
      by (rule suffix_order.trans)
    with False show ?thesis by (simp add: Let_def)
  qed
qed

lemma TrimSpace_sublist: "sublist (TrimSpace s) s"
proof -
  have "suffix (TrimLeftSpace s) s" by (simp add: TrimLeftSpace_def trimLeading_suffix)
  then have 1: "sublist (TrimLeftSpace s) s" by (rule suffix_imp_sublist)
  have "suffix (trimLeading (map rev spaceRunes) (rev (TrimLeftSpace s))) (rev (TrimLeftSpace s))"
    by (rule trimLeading_suffix)
  then have "prefix (TrimRightSpace (TrimLeftSpace s)) (TrimLeftSpace s)"
    by (simp add: TrimRightSpace_def suffix_to_prefix)
  then have "sublist (TrimSpace s) (TrimLeftSpace s)"
    unfolding TrimSpace_def by (rule prefix_imp_sublist)
  from this 1 show ?thesis by (rule sublist_order.order.trans)
qed

lemma sublist_across_newline:
  assumes "CHR 0x0A \<notin> set ps" and "ps \<noteq> []" and "sublist ps (xs @ CHR 0x0A # ys)"
  shows "sublist ps xs \<or> sublist ps ys"
proof -
  have np: "\<not> prefix ps (CHR 0x0A # ys)"
  proof
    assume "prefix ps (CHR 0x0A # ys)"
    with assms(2) obtain t where "ps = CHR 0x0A # t" by (cases ps) auto
    with assms(1) show False by simp
  qed
  from assms(3) consider "sublist ps xs" | "sublist ps (CHR 0x0A # ys)"
    | xs1 xs2 where "ps = xs1 @ xs2" "suffix xs1 xs" "prefix xs2 (CHR 0x0A # ys)"
    unfolding sublist_append by blast
  then show ?thesis
  proof cases
    case 1
    then show ?thesis by simp
  next
    case 2
    with np show ?thesis by (simp add: sublist_Cons_right)
  next
    case 3
    have "xs2 = []"
    proof (rule ccontr)
      assume "xs2 \<noteq> []"
      with 3(3) obtain t where "xs2 = CHR 0x0A # t" by (cases xs2) auto
      with 3(1) assms(1) show False by simp
    qed
    with 3(1,2) have "suffix ps xs" by simp
    then show ?thesis by (simp add: suffix_imp_sublist)
  qed
qed

lemma placeholder_shape:
  "placeholder u = CHR ''!'' # ''[](dayone-moment://'' @ u @ '')''"
  "placeholder u \<noteq> []"
  by (simp_all add: placeholder_def)

lemma placeholder_no_newline:
  "CHR 0x0A \<notin> set u \<Longrightarrow> CHR 0x0A \<notin> set (placeholder u)"
  by (simp add: placeholder_def)

lemma sublist_after_blank:
  assumes "CHR 0x0A \<notin> set ps" and "ps \<noteq> []" and "sublist ps (c @ blankLine @ rest)"
  shows "sublist ps c \<or> sublist ps rest"
proof -
  from assms(3) have "sublist ps (c @ CHR 0x0A # (CHR 0x0A # rest))"
    by (simp add: blankLine_def)
  from sublist_across_newline [OF assms(1,2) this]
  show ?thesis
  proof
    assume "sublist ps c"
    then show ?thesis by simp
  next
    assume "sublist ps (CHR 0x0A # rest)"
    then have "sublist ps ([] @ CHR 0x0A # rest)" by simp
    from sublist_across_newline [OF assms(1,2) this] assms(2) show ?thesis by simp
  qed
qed

lemma sublist_fragments:
  assumes "CHR 0x0A \<notin> set ps" and "ps \<noteq> []" and "sublist ps (concat (map render fs))"
  shows "(\<exists>md. Converted md \<in> set fs \<and> sublist ps (TrimSpace md))
       \<or> (\<exists>u. PhotoRef u \<in> set fs \<and> sublist ps (placeholder u))"
  using assms(3)
proof (induction fs)
  case Nil
  with assms(2) show ?case by simp
next
  case (Cons f fs)
  show ?case
  proof (cases f)
    case (Converted md)
    with Cons.prems have "sublist ps (TrimSpace md @ blankLine @ concat (map render fs))" by simp
    from sublist_after_blank [OF assms(1,2) this] show ?thesis
    proof
      assume "sublist ps (TrimSpace md)"
      with Converted show ?thesis by auto
    next
      assume "sublist ps (concat (map render fs))"
      from Cons.IH [OF this] show ?thesis by auto
    qed
  next
    case (PhotoRef u)
    with Cons.prems have "sublist ps (placeholder u @ blankLine @ concat (map render fs))" by simp
    from sublist_after_blank [OF assms(1,2) this] show ?thesis
    proof
      assume "sublist ps (placeholder u)"
      with PhotoRef show ?thesis by auto
    next
      assume "sublist ps (concat (map render fs))"
      from Cons.IH [OF this] show ?thesis by auto
    qed
  qed
qed

lemma photoRefs_append: "photoRefs (fs @ gs) = photoRefs fs @ photoRefs gs"
  by (induction fs rule: photoRefs.induct) simp_all

lemma photoRefs_member: "PhotoRef u \<in> set fs \<Longrightarrow> u \<in> set (photoRefs fs)"
  by (induction fs rule: photoRefs.induct) auto

lemma placeholder_sublist_eq:
  assumes "sublist (placeholder u) (placeholder v)"
    and "CHR ''!'' \<notin> set v" and "CHR '')'' \<notin> set v"
  shows "u = v"
proof -
  let ?P = "''[](dayone-moment://''"
  from assms(1) obtain as bs where
    eq: "CHR ''!'' # ?P @ v @ '')'' = as @ (CHR ''!'' # ?P @ u @ '')'') @ bs"
    unfolding sublist_def placeholder_shape(1) by blast
  have "as = []"
  proof (cases as)
    case Nil
    then show ?thesis .
  next
    case (Cons a as')
    with eq have "?P @ v @ '')'' = as' @ (CHR ''!'' # ?P @ u @ '')'') @ bs" by simp
    then have "CHR ''!'' \<in> set (?P @ v @ '')'')" by (metis in_set_conv_decomp append_Cons)
    with assms(2) show ?thesis by simp
  qed
  with eq have e: "v @ '')'' = u @ CHR '')'' # bs" by simp
  then consider us where "v = u @ us" "us @ '')'' = CHR '')'' # bs"
    | us where "v @ us = u" "'')'' = us @ CHR '')'' # bs"
    unfolding append_eq_append_conv2 by blast
  then show ?thesis
  proof cases
    case 1
    show ?thesis
    proof (cases us)
      case Nil
      with 1(1) show ?thesis by simp
    next
      case (Cons x xs)
      with 1(2) have "x = CHR '')''" by simp
      with Cons 1(1) assms(3) show ?thesis by simp
    qed
  next
    case 2
    from 2(2) have "us = []" by (cases us) simp_all
    with 2(1) show ?thesis by simp
  qed
qed

lemma placeholder_not_in_heading:
  assumes "sublist (placeholder u) (''# '' @ title)"
  shows "sublist (placeholder u) title"
proof -
  have "\<not> prefix (placeholder u) (c # s)" if "c \<noteq> CHR ''!''" for c s
    using that by (simp add: placeholder_shape(1))
  then have "\<not> prefix (placeholder u) (CHR ''#'' # CHR '' '' # title)"
    "\<not> prefix (placeholder u) (CHR '' '' # title)" by simp_all
  with assms show ?thesis by (simp add: sublist_Cons_right)
qed

lemma bodyInv_fields:
  assumes "bodyInv w doc st" and "currentPContent st' = currentPContent st"
    and "bodyMarkdownBuilder st' = bodyMarkdownBuilder st" and "entryPhotos st' = entryPhotos st"
  shows "bodyInv w doc st'"
  using assms unfolding bodyInv_def by simp

lemma bodyInv_conv:
  assumes "bodyInv w doc st"
  shows "bodyInv w doc (convertAndAppendP w p st)"
proof -
  from assms have "currentPContent st = []" by (simp add: bodyInv_def)
  then have "convertAndAppendP w p st = st" by (simp add: convertAndAppendP_def)
  with assms show ?thesis by simp
qed

lemma bodyInv_extend:
  assumes "bodyInv w doc st" and "currentPContent st' = []"
    and "bodyMarkdownBuilder st' = bodyMarkdownBuilder st @ render f"
    and "entryPhotos st' = entryPhotos st @ ph"
    and "photoRefs [f] = map Identifier ph"
    and "\<And>md. f = Converted md \<Longrightarrow>
           \<exists>nd \<in> docDescs doc. \<exists>html. outerHtml w nd = Inr html \<and> convertString w html = Inr md"
    and "\<And>u. f = PhotoRef u \<Longrightarrow> \<exists>k. u = newDayOneUUID w k"
  shows "bodyInv w doc st'"
proof -
  from assms(1) obtain fs where fs: "bodyMarkdownBuilder st = concat (map render fs)"
    "photoRefs fs = map Identifier (entryPhotos st)"
    "\<forall>md. Converted md \<in> set fs \<longrightarrow>
        (\<exists>nd \<in> docDescs doc. \<exists>html. outerHtml w nd = Inr html \<and> convertString w html = Inr md)"
    "\<forall>u \<in> set (photoRefs fs). \<exists>k. u = newDayOneUUID w k"
    unfolding bodyInv_def by blast
  have 1: "bodyMarkdownBuilder st' = concat (map render (fs @ [f]))"
    using assms(3) fs(1) by simp
  have 2: "photoRefs (fs @ [f]) = map Identifier (entryPhotos st')"
    using assms(4,5) fs(2) by (simp add: photoRefs_append)
  have 3: "\<forall>md. Converted md \<in> set (fs @ [f]) \<longrightarrow>
        (\<exists>nd \<in> docDescs doc. \<exists>html. outerHtml w nd = Inr html \<and> convertString w html = Inr md)"
  proof (intro allI impI)
    fix md
    assume "Converted md \<in> set (fs @ [f])"
    then have "Converted md \<in> set fs \<or> f = Converted md" by auto
    then show "\<exists>nd \<in> docDescs doc. \<exists>html. outerHtml w nd = Inr html \<and> convertString w html = Inr md"
    proof
      assume "Converted md \<in> set fs"
      with fs(3) show ?thesis by blast
    next
      assume "f = Converted md"
      then show ?thesis by (rule assms(6))
    qed
  qed
  have 4: "\<forall>u \<in> set (photoRefs (fs @ [f])). \<exists>k. u = newDayOneUUID w k"
  proof
    fix u
    assume "u \<in> set (photoRefs (fs @ [f]))"
    then have "u \<in> set (photoRefs fs) \<or> u \<in> set (photoRefs [f])" by (simp add: photoRefs_append)
    then show "\<exists>k. u = newDayOneUUID w k"
    proof
      assume "u \<in> set (photoRefs fs)"
      with fs(4) show ?thesis by blast
    next
      assume "u \<in> set (photoRefs [f])"
      then have "f = PhotoRef u" by (cases f) simp_all
      then show ?thesis by (rule assms(7))
    qed
  qed
  from assms(2) 1 2 3 4 show ?thesis unfolding bodyInv_def by blast
qed

lemma bodyInv_write:
  assumes nd: "nd \<in> docDescs doc" and html: "outerHtml w nd = Inr html \<or> html = []"
    and inv: "bodyInv w doc st"
  shows "bodyInv w doc (writeAndConvert w p html st)"
proof -
  from inv have cp: "currentPContent st = []" by (simp add: bodyInv_def)
  show ?thesis
  proof (cases "html = []")
    case True
    with cp have "writeAndConvert w p html st = st"
      by (simp add: writeAndConvert_def convertAndAppendP_def)
    with inv show ?thesis by simp
  next
    case False
    with html have oh: "outerHtml w nd = Inr html" by simp
    show ?thesis
    proof (cases "convertString w html")
      case (Inl x)
      with cp False show ?thesis
        by (intro bodyInv_fields [OF inv]) (simp_all add: writeAndConvert_def convertAndAppendP_def)
    next
      case (Inr md)
      show ?thesis
      proof (rule bodyInv_extend [OF inv, where f = "Converted md" and ph = "[]"])
        show "currentPContent (writeAndConvert w p html st) = []"
          by (simp add: writeAndConvert_fields)
        show "bodyMarkdownBuilder (writeAndConvert w p html st)
            = bodyMarkdownBuilder st @ render (Converted md)"
          using cp False Inr by (simp add: writeAndConvert_def convertAndAppendP_def)
        show "entryPhotos (writeAndConvert w p html st) = entryPhotos st @ []"
          by (simp add: writeAndConvert_fields)
        show "photoRefs [Converted md] = map Identifier []" by simp
        show "\<exists>nd \<in> docDescs doc. \<exists>html. outerHtml w nd = Inr html \<and> convertString w html = Inr md'"
          if "Converted md = Converted md'" for md'
          using that nd oh Inr by auto
        show "\<exists>k. u = newDayOneUUID w k" if "Converted md = PhotoRef u" for u
          using that by simp
      qed
    qed
  qed
qed

lemma bodyInv_image:
  assumes inv: "bodyInv w doc st"
  shows "bodyInv w doc (processImage w p cd i st)"
proof -
  let ?st' = "processImage w p cd i st"
  let ?n = "uuidCalls st"
  from inv have cp: "currentPContent st = []" by (simp add: bodyInv_def)
  from processImage_cases [of w p cd i st] show ?thesis
  proof
    assume "entryPhotos ?st' = entryPhotos st \<and> mediaToCopy ?st' = mediaToCopy st
       \<and> bodyMarkdownBuilder ?st' = bodyMarkdownBuilder st
       \<and> currentPContent ?st' = currentPContent st \<and> ?n \<le> uuidCalls ?st'"
    then show ?thesis by (intro bodyInv_fields [OF inv]) simp_all
  next
    assume "\<exists>src ext md5. ext \<in> set imageExts
         \<and> entryPhotos ?st' = entryPhotos st @ [\<lparr>MD5 = md5, Type = TrimPrefix ext ''.'',
                  Identifier = newDayOneUUID w ?n, PhotoCreationDate = cd\<rparr>]
         \<and> mediaToCopy ?st' = AList.update src (''photos/'' @ newDayOneUUID w ?n @ ext) (mediaToCopy st)
         \<and> bodyMarkdownBuilder ?st' = bodyMarkdownBuilder st @ placeholder (newDayOneUUID w ?n) @ blankLine
         \<and> currentPContent ?st' = currentPContent st
         \<and> uuidCalls ?st' = Suc ?n"
    then obtain ext md5 where
      ph: "entryPhotos ?st' = entryPhotos st @ [\<lparr>MD5 = md5, Type = TrimPrefix ext ''.'',
                  Identifier = newDayOneUUID w ?n, PhotoCreationDate = cd\<rparr>]"
      and bd: "bodyMarkdownBuilder ?st' = bodyMarkdownBuilder st @ placeholder (newDayOneUUID w ?n) @ blankLine"
      and c: "currentPContent ?st' = currentPContent st"
      by blast
    show ?thesis
    proof (rule bodyInv_extend [OF inv, where f = "PhotoRef (newDayOneUUID w ?n)"
          and ph = "[\<lparr>MD5 = md5, Type = TrimPrefix ext ''.'',
                  Identifier = newDayOneUUID w ?n, PhotoCreationDate = cd\<rparr>]"])
      show "currentPContent ?st' = []" using c cp by simp
      show "bodyMarkdownBuilder ?st' = bodyMarkdownBuilder st @ render (PhotoRef (newDayOneUUID w ?n))"
        using bd by simp
      show "entryPhotos ?st' = entryPhotos st @ [\<lparr>MD5 = md5, Type = TrimPrefix ext ''.'',
                  Identifier = newDayOneUUID w ?n, PhotoCreationDate = cd\<rparr>]" by (rule ph)
      show "photoRefs [PhotoRef (newDayOneUUID w ?n)] = map Identifier [\<lparr>MD5 = md5,
          Type = TrimPrefix ext ''.'', Identifier = newDayOneUUID w ?n, PhotoCreationDate = cd\<rparr>]"
        by simp
      show "\<exists>nd \<in> docDescs doc. \<exists>html. outerHtml w nd = Inr html \<and> convertString w html = Inr md'"
        if "PhotoRef (newDayOneUUID w ?n) = Converted md'" for md'
        using that by simp
      show "\<exists>k. u = newDayOneUUID w k" if "PhotoRef (newDayOneUUID w ?n) = PhotoRef u" for u
        using that by auto
    qed
  qed
qed

lemma walkBody_body: "bodyInv w doc (walkBody w p cd doc (initLoopState k))"
proof (rule walkBody_invariant [where N = "uuidCalls (walkBody w p cd doc (initLoopState k))"])
  show "bodyInv w doc (initLoopState k)"
    unfolding bodyInv_def initLoopState_def
    by (simp, intro exI [of _ "[]"], simp)
  show "uuidCalls (walkBody w p cd doc (initLoopState k))
      \<le> uuidCalls (walkBody w p cd doc (initLoopState k))" by simp
  show "\<And>s. bodyInv w doc s \<Longrightarrow> bodyInv w doc (convertAndAppendP w p s)"
    by (rule bodyInv_conv)
  show "\<And>s nd html. nd \<in> docDescs doc \<Longrightarrow> outerHtml w nd = Inr html \<or> html = [] \<Longrightarrow>
      bodyInv w doc s \<Longrightarrow> bodyInv w doc (writeAndConvert w p html s)"
    by (rule bodyInv_write)
  show "\<And>s i. bodyInv w doc s \<Longrightarrow> uuidCalls (processImage w p cd i s)
      \<le> uuidCalls (walkBody w p cd doc (initLoopState k)) \<Longrightarrow> bodyInv w doc (processImage w p cd i s)"
    by (rule bodyInv_image)
  show "\<And>s l. bodyInv w doc s \<Longrightarrow> bodyInv w doc (s\<lparr>logs := logs s @ [l]\<rparr>)"
    by (erule bodyInv_fields) simp_all
qed

section \<open>Every placeholder has its photo\<close>

lemma sample_a_doc_no_bang:
  "nd \<in> docDescs docWalk \<Longrightarrow> CHR ''!'' \<notin> set (nodeText nd)"
  by (auto simp: docDescs_def docWalk_def page_def headerDiv_def photoItem_def)

lemma sublist_set: "sublist xs ys \<Longrightarrow> set xs \<subseteq> set ys"
  by (auto simp: sublist_def)

lemma sample_title_token:
  "outcome (processEntryHTML titleTokenWorld ''/t/Entries/c.html'' ''/t/Resources'' ''UTC'' 0)
   = Inr (entryTitleToken, [])"
  by code_simp

text \<open>
  Claim C6, as amended. The text of a returned entry is the heading of its title, if it has one,
  followed by the trimmed concatenation of the fragments written to the body buffer; the
  placeholders among these fragments are, in the same order, exactly the identifiers of
  the photos of the entry, and every other fragment is the Markdown the converter returned
  for a node of the document. Hence a placeholder for a token without a line break that
  occurs in the text, where neither the title nor the Markdown of a node of the document
  contains it, is the placeholder of a photo of the entry.
\<close>

theorem placeholder_has_photo:
  assumes "outcome (processEntryHTML w p r tz n) = Inr (e, m)"
  shows "\<exists>f doc fs. readFile w p = Inr f \<and> parseHTML w f = Inr doc
      \<and> Text e = (if extractTitle doc p \<noteq> [] then ''# '' @ extractTitle doc p @ blankLine else [])
                   @ TrimSpace (concat (map render fs))
      \<and> photoRefs fs = map Identifier (Photos e)
      \<and> (\<forall>md. Converted md \<in> set fs \<longrightarrow>
            (\<exists>nd \<in> docDescs doc. \<exists>html. outerHtml w nd = Inr html \<and> convertString w html = Inr md))
      \<and> (\<forall>u. CHR 0x0A \<notin> set u \<and> sublist (placeholder u) (Text e)
             \<and> \<not> sublist (placeholder u) (extractTitle doc p)
             \<and> \<not> (\<exists>nd \<in> docDescs doc. \<exists>html md. outerHtml w nd = Inr html
                     \<and> convertString w html = Inr md \<and> sublist (placeholder u) md)
           \<longrightarrow> u \<in> Identifier ` set (Photos e))"
proof -
  from assms obtain f doc t where f: "readFile w p = Inr f" and doc: "parseHTML w f = Inr doc"
    and e: "e = \<lparr>UUID = newDayOneUUID w n, CreationDate = formatRFC3339 t, ModifiedDate = formatRFC3339 t,
          Text = Text e, Starred = False, TimeZone = tz,
          Photos = entryPhotos (walkBody w p (formatRFC3339 t) doc (initLoopState (Suc n)))\<rparr>"
    and tx: "Text e = (if extractTitle doc p \<noteq> [] then ''# '' @ extractTitle doc p @ blankLine else [])
         @ TrimSpace (bodyMarkdownBuilder (walkBody w p (formatRFC3339 t) doc (initLoopState (Suc n))))"
    by (rule processEntryHTML_Inr)
  let ?S = "walkBody w p (formatRFC3339 t) doc (initLoopState (Suc n))"
  let ?title = "extractTitle doc p"
  from e have ph: "Photos e = entryPhotos ?S"
    by (metis DayOneEntry.select_convs(7))
  from walkBody_body [of w doc p "formatRFC3339 t" "Suc n"]
  obtain fs where fs: "bodyMarkdownBuilder ?S = concat (map render fs)"
    "photoRefs fs = map Identifier (entryPhotos ?S)"
    "\<forall>md. Converted md \<in> set fs \<longrightarrow>
        (\<exists>nd \<in> docDescs doc. \<exists>html. outerHtml w nd = Inr html \<and> convertString w html = Inr md)"
    "\<forall>u \<in> set (photoRefs fs). \<exists>k. u = newDayOneUUID w k"
    unfolding bodyInv_def by blast
  have tx': "Text e = (if ?title \<noteq> [] then ''# '' @ ?title @ blankLine else [])
                   @ TrimSpace (concat (map render fs))"
    using tx fs(1) by simp
  have refs: "photoRefs fs = map Identifier (Photos e)" using fs(2) ph by simp
  have main: "u \<in> Identifier ` set (Photos e)"
    if u: "CHR 0x0A \<notin> set u" "sublist (placeholder u) (Text e)"
      "\<not> sublist (placeholder u) ?title"
      "\<not> (\<exists>nd \<in> docDescs doc. \<exists>html md. outerHtml w nd = Inr html
                     \<and> convertString w html = Inr md \<and> sublist (placeholder u) md)" for u
  proof -
    let ?ps = "placeholder u"
    let ?B = "concat (map render fs)"
    note nl = placeholder_no_newline [OF u(1)]
    note ne = placeholder_shape(2) [of u]
    have inT: "sublist ?ps (TrimSpace ?B)"
    proof (cases "?title = []")
      case True
      with u(2) tx' show ?thesis by simp
    next
      case False
      with u(2) tx' have "sublist ?ps ((''# '' @ ?title) @ blankLine @ TrimSpace ?B)" by simp
      from sublist_after_blank [OF nl ne this] show ?thesis
      proof
        assume "sublist ?ps (''# '' @ ?title)"
        then have "sublist ?ps ?title" by (rule placeholder_not_in_heading)
        with u(3) show ?thesis by simp
      next
        assume "sublist ?ps (TrimSpace ?B)"
        then show ?thesis .
      qed
    qed
    from inT TrimSpace_sublist [of ?B] have "sublist ?ps ?B" by (rule sublist_order.order.trans)
    from sublist_fragments [OF nl ne this] show ?thesis
    proof
      assume "\<exists>md. Converted md \<in> set fs \<and> sublist ?ps (TrimSpace md)"
      then obtain md where md: "Converted md \<in> set fs" "sublist ?ps (TrimSpace md)" by blast
      from md(2) TrimSpace_sublist [of md] have s: "sublist ?ps md"
        by (rule sublist_order.order.trans)
      from fs(3) md(1) obtain nd html where "nd \<in> docDescs doc" "outerHtml w nd = Inr html"
        "convertString w html = Inr md" by blast
      with s u(4) show ?thesis by blast
    next
      assume "\<exists>v. PhotoRef v \<in> set fs \<and> sublist ?ps (placeholder v)"
      then obtain v where v: "PhotoRef v \<in> set fs" "sublist ?ps (placeholder v)" by blast
      from v(1) have vin: "v \<in> set (photoRefs fs)" by (rule photoRefs_member)
      with fs(4) obtain k where k: "v = newDayOneUUID w k" by blast
      have "CHR ''!'' \<notin> set v" "CHR '')'' \<notin> set v"
        unfolding k by (rule hex_no_separator [OF newDayOneUUID_hex])+
      from placeholder_sublist_eq [OF v(2) this] have "u = v" .
      with vin refs show ?thesis by simp
    qed
  qed
  from f doc tx' refs fs(3) main show ?thesis by blast
qed

lemma sample_a_title: "extractTitle docWalk ''/t/Entries/a.html'' = ''Morning Walk''"
  by code_simp

theorem placeholder_has_photo_witness:
  "outcome (processEntryHTML sampleWorld ''/t/Entries/a.html'' ''/t/Resources'' ''UTC'' 0)
     = Inr (entryA, [(''/t/Resources/A.PNG'', ''photos/01010101010101010101010101010101.png'')])
   \<and> CHR 0x0A \<notin> set ''01010101010101010101010101010101''
   \<and> sublist (placeholder ''01010101010101010101010101010101'') (Text entryA)
   \<and> \<not> sublist (placeholder ''01010101010101010101010101010101'')
         (extractTitle docWalk ''/t/Entries/a.html'')
   \<and> \<not> (\<exists>nd \<in> docDescs docWalk. \<exists>html md. outerHtml sampleWorld nd = Inr html
           \<and> convertString sampleWorld html = Inr md
           \<and> sublist (placeholder ''01010101010101010101010101010101'') md)
   \<and> ''01010101010101010101010101010101'' \<in> Identifier ` set (Photos entryA)
   \<and> (\<exists>fs. Text entryA = ''# Morning Walk'' @ blankLine @ TrimSpace (concat (map render fs))
         \<and> photoRefs fs = [''01010101010101010101010101010101''])"
proof -
  let ?p = "''/t/Entries/a.html''"
  let ?u = "''01010101010101010101010101010101''"
  let ?ma = "[(''/t/Resources/A.PNG'', ''photos/01010101010101010101010101010101.png'')]"
  have oa: "outcome (processEntryHTML sampleWorld ?p ''/t/Resources'' ''UTC'' 0) = Inr (entryA, ?ma)"
    by (simp only: sample_a procResult.select_convs)
  have rf: "readFile sampleWorld ?p = Inr ?p" and pa: "parseHTML sampleWorld ?p = Inr docWalk"
    and oh: "outerHtml sampleWorld nd = Inr (nodeText nd)"
    and cs: "convertString sampleWorld s = Inr s" for nd s
    by (simp_all add: sampleWorld_def)
  have bang: "CHR ''!'' \<in> set (placeholder ?u)" by (simp add: placeholder_def)
  have h1: "CHR 0x0A \<notin> set ?u" by simp
  have "Text entryA = (''# Morning Walk'' @ blankLine @ ''Felt great today.'' @ blankLine)
      @ placeholder ?u @ []"
    by (simp add: entryA_def placeholder_def)
  then have h2: "sublist (placeholder ?u) (Text entryA)" unfolding sublist_def by blast
  have h3: "\<not> sublist (placeholder ?u) (extractTitle docWalk ?p)"
  proof
    assume "sublist (placeholder ?u) (extractTitle docWalk ?p)"
    from sublist_set [OF this] bang have "CHR ''!'' \<in> set (extractTitle docWalk ?p)" by blast
    then show False unfolding sample_a_title by simp
  qed
  have h4: "\<not> (\<exists>nd \<in> docDescs docWalk. \<exists>html md. outerHtml sampleWorld nd = Inr html
           \<and> convertString sampleWorld html = Inr md \<and> sublist (placeholder ?u) md)"
  proof
    assume "\<exists>nd \<in> docDescs docWalk. \<exists>html md. outerHtml sampleWorld nd = Inr html
           \<and> convertString sampleWorld html = Inr md \<and> sublist (placeholder ?u) md"
    then obtain nd where nd: "nd \<in> docDescs docWalk" "sublist (placeholder ?u) (nodeText nd)"
      unfolding oh cs by auto
    from sublist_set [OF nd(2)] bang have "CHR ''!'' \<in> set (nodeText nd)" by blast
    with sample_a_doc_no_bang [OF nd(1)] show False by simp
  qed
  from placeholder_has_photo [OF oa] obtain f doc fs where
    f: "readFile sampleWorld ?p = Inr f" and d: "parseHTML sampleWorld f = Inr doc"
    and tx: "Text entryA = (if extractTitle doc ?p \<noteq> [] then ''# '' @ extractTitle doc ?p @ blankLine
                            else []) @ TrimSpace (concat (map render fs))"
    and refs: "photoRefs fs = map Identifier (Photos entryA)"
    and imp: "\<forall>u. CHR 0x0A \<notin> set u \<and> sublist (placeholder u) (Text entryA)
             \<and> \<not> sublist (placeholder u) (extractTitle doc ?p)
             \<and> \<not> (\<exists>nd \<in> docDescs doc. \<exists>html md. outerHtml sampleWorld nd = Inr html
                     \<and> convertString sampleWorld html = Inr md \<and> sublist (placeholder u) md)
           \<longrightarrow> u \<in> Identifier ` set (Photos entryA)"
    by blast
  from f rf have "f = ?p" by simp
  with d pa have doc: "doc = docWalk" by simp
  from imp [unfolded doc] h1 h2 h3 h4 have c1: "?u \<in> Identifier ` set (Photos entryA)" by blast
  have "map Identifier (Photos entryA) = [?u]" by (simp add: entryA_def)
  with refs have r: "photoRefs fs = [?u]" by simp
  from tx have "Text entryA = ''# Morning Walk'' @ blankLine @ TrimSpace (concat (map render fs))"
    unfolding doc sample_a_title by simp
  with r have c2: "\<exists>fs. Text entryA = ''# Morning Walk'' @ blankLine @ TrimSpace (concat (map render fs))
         \<and> photoRefs fs = [?u]" by blast
  from oa h1 h2 h3 h4 c1 c2 show ?thesis by (intro conjI)
qed

theorem title_placeholder_without_photo_counterexample:
  "outcome (processEntryHTML titleTokenWorld ''/t/Entries/c.html'' ''/t/Resources'' ''UTC'' 0)
     = Inr (entryTitleToken, [])
   \<and> CHR 0x0A \<notin> set ''AB''
   \<and> sublist (placeholder ''AB'') (Text entryTitleToken)
   \<and> Photos entryTitleToken = []
   \<and> ''AB'' \<notin> Identifier ` set (Photos entryTitleToken)"
proof -
  have "Text entryTitleToken = ''# '' @ placeholder ''AB'' @ blankLine"
    by (simp add: entryTitleToken_def placeholder_def)
  then have "sublist (placeholder ''AB'') (Text entryTitleToken)" unfolding sublist_def by blast
  moreover have "Photos entryTitleToken = []" by (simp add: entryTitleToken_def)
  ultimately show ?thesis using sample_title_token by simp
qed

end
